theory Spec2Isabelle
  imports Complex_Main "HOL-Library.Multiset"
begin

section \<open>Conventions\<close>

text \<open>
  The development embeds the three core modules of SoulSync:
  \<^item> \<^verbatim>\<open>core/soulseek_client.py\<close>: result records, quality scores, the processing of raw
    search responses into tracks and albums, and the progressive search loop;
  \<^item> \<^verbatim>\<open>core/plex_scan_manager.py\<close>: the debounced library-scan controller;
  \<^item> \<^verbatim>\<open>core/matching_engine.py\<close>: string normalisation and match confidence.

  Python \<^verbatim>\<open>int\<close> is \<^typ>\<open>int\<close>. Python \<^verbatim>\<open>float\<close> scores are modelled by exact
  rationals (\<^typ>\<open>rat\<close>): every constant of the source is a short decimal, and the
  properties proved are order properties (a cap, a threshold, sortedness) that do not
  depend on rounding. A Python \<^verbatim>\<open>str\<close> is a \<^typ>\<open>string\<close>, read as a sequence of code
  points below 256. \<^verbatim>\<open>Optional[T]\<close> is \<^typ>\<open>'a option\<close>.
\<close>

section \<open>String primitives of Python\<close>

definition code :: "char \<Rightarrow> nat" where
  "code c = of_char c"

text \<open>\<^verbatim>\<open>str.isspace\<close> and the class \<^verbatim>\<open>\s\<close> of \<^verbatim>\<open>re\<close> on code points below 256.\<close>

definition is_space :: "char \<Rightarrow> bool" where
  "is_space c = (code c \<in> {9, 10, 11, 12, 13, 28, 29, 30, 31, 32, 133, 160})"

definition is_upper_ascii :: "char \<Rightarrow> bool" where
  "is_upper_ascii c = (65 \<le> code c \<and> code c \<le> 90)"

definition is_lower_ascii :: "char \<Rightarrow> bool" where
  "is_lower_ascii c = (97 \<le> code c \<and> code c \<le> 122)"

definition is_digit :: "char \<Rightarrow> bool" where
  "is_digit c = (48 \<le> code c \<and> code c \<le> 57)"

definition is_ascii :: "char \<Rightarrow> bool" where
  "is_ascii c = (code c < 128)"

text \<open>\<^verbatim>\<open>str.lower\<close> on one code point below 256: the ASCII capitals and the Latin-1
  capitals 192..222 (except the multiplication sign 215) move up by 32.\<close>

definition lower_char :: "char \<Rightarrow> char" where
  "lower_char c =
     (if is_upper_ascii c \<or> (192 \<le> code c \<and> code c \<le> 222 \<and> code c \<noteq> 215)
      then char_of (code c + 32) else c)"

definition lower :: "string \<Rightarrow> string" where
  "lower s = map lower_char s"

text \<open>\<^verbatim>\<open>str.strip()\<close>: leading and trailing whitespace removed.\<close>

definition lstrip :: "string \<Rightarrow> string" where
  "lstrip s = dropWhile is_space s"

definition rstrip :: "string \<Rightarrow> string" where
  "rstrip s = rev (dropWhile is_space (rev s))"

definition strip :: "string \<Rightarrow> string" where
  "strip s = rstrip (lstrip s)"

section \<open>Search results and their quality score\<close>

text \<open>
  \<^verbatim>\<open>SearchResult\<close> and its subclass \<^verbatim>\<open>TrackResult\<close>. Of the metadata that
  \<^verbatim>\<open>TrackResult.__post_init__\<close> infers from the file name only \<^verbatim>\<open>track_number\<close> is kept:
  it is the one inferred field that the album aggregation reads. The field \<^verbatim>\<open>size\<close> is
  \<open>size_bytes\<close> here.
\<close>

record search_result =
  username :: string
  filename :: string
  size_bytes :: int
  bitrate :: "int option"
  duration :: "int option"
  quality :: string
  free_upload_slots :: int
  upload_speed :: int
  queue_length :: int

record track_result = search_result +
  track_number :: "int option"

text \<open>\<^verbatim>\<open>quality_weights.get(q, 0.3)\<close>.\<close>

definition quality_weights :: "string \<Rightarrow> rat" where
  "quality_weights q =
     (if q = ''flac'' then 1
      else if q = ''mp3'' then 8 / 10
      else if q = ''ogg'' then 7 / 10
      else if q = ''aac'' then 6 / 10
      else if q = ''wma'' then 5 / 10
      else 3 / 10)"

text \<open>\<^verbatim>\<open>SearchResult.quality_score\<close>. The test \<^verbatim>\<open>if self.bitrate\<close> is false for
  \<^verbatim>\<open>None\<close> and for 0.\<close>

definition bitrate_bonus :: "int option \<Rightarrow> rat" where
  "bitrate_bonus b =
     (case b of
        None \<Rightarrow> 0
      | Some r \<Rightarrow>
          if r = 0 then 0
          else if r \<ge> 320 then 2 / 10
          else if r \<ge> 256 then 1 / 10
          else if r < 128 then - (2 / 10)
          else 0)"

definition peer_bonus :: "int \<Rightarrow> int \<Rightarrow> int \<Rightarrow> rat" where
  "peer_bonus slots speed queue =
     (if slots > 0 then 1 / 10 else 0)
     + (if speed > 100 then 5 / 100 else 0)
     - (if queue > 10 then 1 / 10 else 0)"

definition quality_score :: "'a track_result_scheme \<Rightarrow> rat" where
  "quality_score t =
     min (quality_weights (lower (quality t)) + bitrate_bonus (bitrate t)
          + peer_bonus (free_upload_slots t) (upload_speed t) (queue_length t)) 1"

text \<open>\<^verbatim>\<open>AlbumResult\<close>. The fields \<^verbatim>\<open>album_title\<close>, \<^verbatim>\<open>artist\<close> and \<^verbatim>\<open>year\<close>, which are
  derived from the path by regular expressions and read by no operation below, are
  left out.\<close>

record album_result =
  a_username :: string
  album_path :: string
  track_count :: int
  total_size :: int
  tracks :: "track_result list"
  dominant_quality :: string
  a_free_upload_slots :: int
  a_upload_speed :: int
  a_queue_length :: int

definition track_count_bonus :: "int \<Rightarrow> rat" where
  "track_count_bonus n =
     (if 8 \<le> n \<and> n \<le> 20 then 1 / 10 else if n > 20 then 5 / 100 else 0)"

text \<open>\<^verbatim>\<open>AlbumResult.quality_score\<close>; its last line is \<^verbatim>\<open>return min(base_score, 1.0)\<close>,
  as for a track.\<close>

definition album_quality_score :: "album_result \<Rightarrow> rat" where
  "album_quality_score a =
     min (quality_weights (lower (dominant_quality a)) + track_count_bonus (track_count a)
          + peer_bonus (a_free_upload_slots a) (a_upload_speed a) (a_queue_length a)) 1"

section \<open>Processing raw search responses\<close>

text \<open>\<^verbatim>\<open>s.split(c)\<close> for a one-character separator; the result is never empty.\<close>

fun split_on :: "char \<Rightarrow> string \<Rightarrow> string list" where
  "split_on c [] = [[]]"
| "split_on c (x # xs) =
     (if x = c then [] # split_on c xs
      else (case split_on c xs of [] \<Rightarrow> [[x]] | w # ws \<Rightarrow> (x # w) # ws))"

text \<open>\<^verbatim>\<open>sep.join(parts)\<close>.\<close>

fun join :: "string \<Rightarrow> string list \<Rightarrow> string" where
  "join sep [] = []"
| "join sep [p] = p"
| "join sep (p # q # ps) = p @ sep @ join sep (q # ps)"

definition startswith :: "string \<Rightarrow> string \<Rightarrow> bool" where
  "startswith s p = (take (length p) s = p)"

definition backslash :: char where
  "backslash = CHR 0x5C"

text \<open>
  \<^verbatim>\<open>Path(filename).suffix\<close> of \<^verbatim>\<open>pathlib\<close> on a POSIX host: the name is the last path
  component that is neither empty nor a single dot, and the suffix is the part of the
  name from its last dot on, provided that dot is neither the first nor the last
  character of the name.
\<close>

definition path_name :: "string \<Rightarrow> string" where
  "path_name f =
     (case filter (\<lambda>p. p \<noteq> [] \<and> p \<noteq> ''.'') (split_on CHR ''/'' f) of
        [] \<Rightarrow> []
      | p # ps \<Rightarrow> last (p # ps))"

definition path_suffix :: "string \<Rightarrow> string" where
  "path_suffix f =
     (let name = path_name f;
          k = length (takeWhile (\<lambda>c. c \<noteq> CHR ''.'') (rev name))
      in if CHR ''.'' \<in> set name \<and> 0 < k \<and> k + 1 < length name
         then drop (length name - 1 - k) name else [])"

text \<open>\<^verbatim>\<open>file_ext = Path(filename).suffix.lower().lstrip('.')\<close>.\<close>

definition file_ext :: "string \<Rightarrow> string" where
  "file_ext f = dropWhile (\<lambda>c. c = CHR ''.'') (lower (path_suffix f))"

definition audio_extensions :: "string list" where
  "audio_extensions = [''.mp3'', ''.flac'', ''.ogg'', ''.aac'', ''.wma'', ''.wav'', ''.m4a'']"

definition quality_of_ext :: "string \<Rightarrow> string" where
  "quality_of_ext e =
     (if e \<in> set [''flac'', ''mp3'', ''ogg'', ''aac'', ''wma''] then e else ''unknown'')"

text \<open>\<^verbatim>\<open>SoulseekClient._extract_album_path\<close>.\<close>

definition extract_album_path :: "string \<Rightarrow> string option" where
  "extract_album_path f =
     (if CHR ''/'' \<notin> set f \<and> backslash \<notin> set f then None
      else
        let normalized_path = map (\<lambda>c. if c = backslash then CHR ''/'' else c) f;
            path_parts = split_on CHR ''/'' normalized_path
        in if length path_parts < 2 then None
           else
             let album_dir = path_parts ! (length path_parts - 2)
             in if startswith album_dir ''@'' \<or> length album_dir < 2 then None
                else Some (join ''/'' (butlast path_parts)))"

text \<open>
  One peer's reply and its file records; a key that is absent from the JSON object is
  the default that \<^verbatim>\<open>.get\<close> gives it (\<^verbatim>\<open>''\<close>, 0, \<^verbatim>\<open>[]\<close> or \<^verbatim>\<open>None\<close>).
\<close>

record file_data =
  f_filename :: string
  f_size :: int
  f_bitRate :: "int option"
  f_length :: "int option"

record response_data =
  r_username :: string
  r_files :: "file_data list"
  r_freeUploadSlots :: int
  r_uploadSpeed :: int
  r_queueLength :: int

text \<open>
  The constructor call in \<^verbatim>\<open>_process_search_responses\<close>. \<^verbatim>\<open>__post_init__\<close> infers the
  track number from the file name with regular expressions over its base name; that
  inference is the parameter \<open>tn\<close> (a function of the file name alone, since no
  metadata is passed to the constructor here).
\<close>

definition make_track ::
  "(string \<Rightarrow> int option) \<Rightarrow> response_data \<Rightarrow> file_data \<Rightarrow> string \<Rightarrow> track_result" where
  "make_track tn r fd q =
     \<lparr>username = r_username r, filename = f_filename fd, size_bytes = f_size fd,
      bitrate = f_bitRate fd, duration = f_length fd, quality = q,
      free_upload_slots = r_freeUploadSlots r, upload_speed = r_uploadSpeed r,
      queue_length = r_queueLength r, track_number = tn (f_filename fd)\<rparr>"

text \<open>\<^verbatim>\<open>albums_by_path\<close>: a \<^verbatim>\<open>defaultdict(list)\<close> keyed by (peer, album path); a
  Python dict keeps its keys in the order of first insertion, so it is an association
  list here.\<close>

type_synonym albums_by_path = "((string \<times> string) \<times> track_result list) list"

fun group_append :: "string \<times> string \<Rightarrow> track_result \<Rightarrow> albums_by_path \<Rightarrow> albums_by_path" where
  "group_append k t [] = [(k, [t])]"
| "group_append k t ((k', ts) # g) =
     (if k' = k then (k', ts @ [t]) # g else (k', ts) # group_append k t g)"

text \<open>The body of the inner loop, for one file record of one reply.\<close>

definition process_file ::
  "(string \<Rightarrow> int option) \<Rightarrow> response_data \<Rightarrow> file_data
   \<Rightarrow> track_result list \<times> albums_by_path \<Rightarrow> track_result list \<times> albums_by_path" where
  "process_file tn r fd st =
     (let ext = file_ext (f_filename fd)
      in if (CHR ''.'' # ext) \<notin> set audio_extensions then st
         else
           let track = make_track tn r fd (quality_of_ext ext);
               all_tracks = fst st @ [track]
           in (case extract_album_path (f_filename fd) of
                 None \<Rightarrow> (all_tracks, snd st)
               | Some p \<Rightarrow>
                   if p = [] then (all_tracks, snd st)
                   else (all_tracks, group_append (r_username r, p) track (snd st))))"

definition process_response ::
  "(string \<Rightarrow> int option) \<Rightarrow> response_data
   \<Rightarrow> track_result list \<times> albums_by_path \<Rightarrow> track_result list \<times> albums_by_path" where
  "process_response tn r st = fold (process_file tn r) (r_files r) st"

text \<open>\<^verbatim>\<open>Counter(xs).most_common(1)[0][0]\<close>: the most frequent element, the one that
  occurs first in the list among equally frequent ones.\<close>

definition most_common :: "'a list \<Rightarrow> 'a" where
  "most_common xs =
     (case rev (remdups (rev xs)) of
        k # ks \<Rightarrow> fold (\<lambda>q best. if count_list xs q > count_list xs best then q else best) ks k)"

text \<open>\<^verbatim>\<open>key=lambda t: t.track_number or 0\<close>.\<close>

definition track_key :: "track_result \<Rightarrow> int" where
  "track_key t = (case track_number t of None \<Rightarrow> 0 | Some n \<Rightarrow> n)"

text \<open>\<^verbatim>\<open>SoulseekClient._create_album_results\<close>: one group gives an album, or nothing
  when it has fewer than two tracks (\<^verbatim>\<open>continue\<close>). \<^verbatim>\<open>sorted\<close> is stable, as
  \<^const>\<open>sort_key\<close> is.\<close>

definition create_album :: "(string \<times> string) \<times> track_result list \<Rightarrow> album_result option" where
  "create_album g =
     (case g of ((user, path), ts) \<Rightarrow>
        if length ts < 2 then None
        else Some
          \<lparr>a_username = user, album_path = path, track_count = int (length ts),
           total_size = sum_list (map size_bytes ts),
           tracks = sort_key track_key ts,
           dominant_quality = most_common (map quality ts),
           a_free_upload_slots = free_upload_slots (hd ts),
           a_upload_speed = upload_speed (hd ts),
           a_queue_length = queue_length (hd ts)\<rparr>)"

definition create_album_results :: "albums_by_path \<Rightarrow> album_result list" where
  "create_album_results groups = List.map_filter create_album groups"

text \<open>\<^verbatim>\<open>SoulseekClient._process_search_responses\<close>.\<close>

definition album_track_filenames :: "album_result list \<Rightarrow> string list" where
  "album_track_filenames albums = concat (map (\<lambda>a. map filename (tracks a)) albums)"

definition process_search_responses ::
  "(string \<Rightarrow> int option) \<Rightarrow> response_data list \<Rightarrow> track_result list \<times> album_result list" where
  "process_search_responses tn responses_data =
     (let st = fold (process_response tn) responses_data ([], []);
          all_tracks = fst st;
          album_results = create_album_results (snd st);
          names = album_track_filenames album_results;
          individual_tracks = filter (\<lambda>t. filename t \<notin> set names) all_tracks
      in (individual_tracks, album_results))"

text \<open>The list \<^verbatim>\<open>all_tracks\<close> of \<^verbatim>\<open>_process_search_responses\<close>: every audio file of the
  batch, parsed, in the order in which the files arrive.\<close>

definition parsed_tracks :: "(string \<Rightarrow> int option) \<Rightarrow> response_data list \<Rightarrow> track_result list" where
  "parsed_tracks tn responses_data = fst (fold (process_response tn) responses_data ([], []))"

text \<open>What the grouping maintains for a group: each of its tracks comes from the peer
  of the key and lies in the directory of the key.\<close>

definition group_ok :: "(string \<times> string) \<times> track_result list \<Rightarrow> bool" where
  "group_ok g =
     (\<forall>t \<in> set (snd g). username t = fst (fst g)
         \<and> extract_album_path (filename t) = Some (snd (fst g)))"

section \<open>The progressive search loop\<close>

text \<open>
  \<^verbatim>\<open>SoulseekClient.search\<close>. The backend is an input: \<open>post_response\<close> is what the POST
  that starts the search gives (\<open>None\<close> for a failed request or an empty object,
  \<open>Some None\<close> for an object without an id), and \<open>replies k\<close> is what the GET of poll
  number \<open>k\<close> gives (\<open>None\<close> when \<^verbatim>\<open>_make_request\<close> returns \<^verbatim>\<open>None\<close> or something that
  is not a list). The state of the loop holds the three accumulators of the source and
  two observations: the number of polls issued so far, and the arguments of every
  invocation of the progress callback, oldest first.
\<close>

record search_state =
  all_responses :: "response_data list"
  all_tracks :: "track_result list"
  all_albums :: "album_result list"
  polls :: nat
  callback_log :: "(track_result list \<times> album_result list \<times> nat) list"

text \<open>\<^verbatim>\<open>xs.sort(key=lambda x: x.quality_score, reverse=True)\<close>: stable, largest first.\<close>

definition sort_desc :: "('a \<Rightarrow> rat) \<Rightarrow> 'a list \<Rightarrow> 'a list" where
  "sort_desc f xs = rev (sort_key f (rev xs))"

text \<open>\<^verbatim>\<open>max_polls = int(timeout / poll_interval)\<close> with \<^verbatim>\<open>poll_interval = 1.5\<close>;
  \<^verbatim>\<open>range(max_polls)\<close> is empty when \<open>max_polls\<close> is not positive.\<close>

definition max_polls :: "int \<Rightarrow> nat" where
  "max_polls timeout = nat ((2 * timeout) div 3)"

text \<open>One iteration of the \<^verbatim>\<open>for\<close> loop; the second component tells whether it left
  the loop by \<^verbatim>\<open>break\<close>.\<close>

definition poll_step ::
  "(string \<Rightarrow> int option) \<Rightarrow> bool \<Rightarrow> response_data list option \<Rightarrow> search_state
   \<Rightarrow> search_state \<times> bool" where
  "poll_step tn has_callback reply st =
     (let st = st\<lparr>polls := polls st + 1\<rparr>
      in case reply of
           None \<Rightarrow> (st, False)
         | Some responses_data \<Rightarrow>
             if responses_data = [] then (st, False)
             else if int (length responses_data) - int (length (all_responses st)) > 0 then
               let new_responses = drop (length (all_responses st)) responses_data;
                   new = process_search_responses tn new_responses;
                   tracks' = sort_desc quality_score (all_tracks st @ fst new);
                   albums' = sort_desc album_quality_score (all_albums st @ snd new);
                   st = st\<lparr>all_responses := responses_data, all_tracks := tracks',
                           all_albums := albums'\<rparr>;
                   st = (if has_callback
                         then st\<lparr>callback_log :=
                                   callback_log st @ [(tracks', albums', length responses_data)]\<rparr>
                         else st)
               in (st, length (all_responses st) \<ge> 30)
             else (st, False))"

fun poll_loop ::
  "(string \<Rightarrow> int option) \<Rightarrow> bool \<Rightarrow> (nat \<Rightarrow> response_data list option) \<Rightarrow> nat \<Rightarrow> nat
   \<Rightarrow> search_state \<Rightarrow> search_state" where
  "poll_loop tn cb replies 0 poll_count st = st"
| "poll_loop tn cb replies (Suc n) poll_count st =
     (case poll_step tn cb (replies poll_count) st of
        (st', brk) \<Rightarrow> if brk then st' else poll_loop tn cb replies n (Suc poll_count) st')"

definition initial_search_state :: search_state where
  "initial_search_state =
     \<lparr>all_responses = [], all_tracks = [], all_albums = [], polls = 0, callback_log = []\<rparr>"

text \<open>The state in which the loop of a search with at most \<open>n\<close> polls ends.\<close>

definition run_polls ::
  "(string \<Rightarrow> int option) \<Rightarrow> bool \<Rightarrow> (nat \<Rightarrow> response_data list option) \<Rightarrow> nat \<Rightarrow> search_state" where
  "run_polls tn cb replies n = poll_loop tn cb replies n 0 initial_search_state"

definition search ::
  "(string \<Rightarrow> int option) \<Rightarrow> bool \<Rightarrow> bool \<Rightarrow> string option option
   \<Rightarrow> (nat \<Rightarrow> response_data list option) \<Rightarrow> int \<Rightarrow> search_state" where
  "search tn configured cb post_response replies timeout =
     (if \<not> configured then initial_search_state
      else case post_response of
             None \<Rightarrow> initial_search_state
           | Some None \<Rightarrow> initial_search_state
           | Some (Some search_id) \<Rightarrow>
               if search_id = [] then initial_search_state
               else run_polls tn cb replies (max_polls timeout))"

text \<open>What holds of one invocation of the progress callback: both lists are in
  non-increasing order of quality score.\<close>

definition log_sorted :: "track_result list \<times> album_result list \<times> nat \<Rightarrow> bool" where
  "log_sorted e =
     (sorted_wrt (\<ge>) (map quality_score (fst e))
      \<and> sorted_wrt (\<ge>) (map album_quality_score (fst (snd e))))"

section \<open>The scan controller\<close>

text \<open>
  \<^verbatim>\<open>PlexScanManager\<close> is used by several threads: the callers of \<^verbatim>\<open>request_scan\<close>, the
  \<^verbatim>\<open>threading.Timer\<close> thread of every debounce timer, and the timer threads that poll the
  scan status. The model keeps the program position of every thread and lets one thread
  at a time take one step; a run is the list of the steps taken, in their order in time.
  A step is either the acquisition of \<^verbatim>\<open>self._lock\<close> at a \<^verbatim>\<open>with self._lock:\<close>, or the
  code from one such point (or remote call) to the next. \<^verbatim>\<open>self._lock\<close> is a
  \<^verbatim>\<open>threading.Lock\<close>, which is not reentrant: it can be acquired only while nobody holds
  it, not even by the thread that holds it.

  Real time is not part of the state. The moment at which a timer thread wakes up is the
  moment of its step from \<open>TimerSleep\<close> or \<open>PollSleep\<close>; the answers of the clock and of the
  Plex server come with the step that asks for them. The registered completion callbacks
  are not part of the state: running them changes nothing here, and a callback that
  calls \<^verbatim>\<open>request_scan\<close> is a further caller. \<^verbatim>\<open>force_scan\<close>, \<^verbatim>\<open>shutdown\<close> and the
  registration of callbacks are not modelled.
\<close>

text \<open>The program positions of a thread.\<close>

datatype pc =
    ReqWait       \<comment> \<open>\<^verbatim>\<open>request_scan\<close>: before \<^verbatim>\<open>with self._lock\<close>\<close>
  | ReqLocked     \<comment> \<open>\<^verbatim>\<open>request_scan\<close>: holding the lock\<close>
  | TimerSleep    \<comment> \<open>debounce timer: \<^verbatim>\<open>Timer.run\<close> in \<^verbatim>\<open>self.finished.wait(interval)\<close>\<close>
  | ExecWait      \<comment> \<open>\<^verbatim>\<open>_execute_scan\<close>: before \<^verbatim>\<open>with self._lock\<close>\<close>
  | ExecLocked    \<comment> \<open>\<^verbatim>\<open>_execute_scan\<close>: holding the lock\<close>
  | ExecTrigger   \<comment> \<open>\<^verbatim>\<open>_execute_scan\<close>: lock released, before \<^verbatim>\<open>trigger_library_scan()\<close>\<close>
  | ResetWait     \<comment> \<open>\<^verbatim>\<open>_reset_scan_state\<close>: before \<^verbatim>\<open>with self._lock\<close>\<close>
  | ResetLocked   \<comment> \<open>\<^verbatim>\<open>_reset_scan_state\<close>: holding the lock\<close>
  | PollSleep     \<comment> \<open>poll timer: \<^verbatim>\<open>Timer.run\<close> in \<^verbatim>\<open>self.finished.wait(interval)\<close>\<close>
  | PollWait      \<comment> \<open>\<^verbatim>\<open>_poll_scan_status\<close>: before \<^verbatim>\<open>with self._lock\<close>\<close>
  | PollLocked    \<comment> \<open>\<^verbatim>\<open>_poll_scan_status\<close>: holding the lock\<close>
  | PollQuery     \<comment> \<open>\<^verbatim>\<open>_poll_scan_status\<close>: lock released, before \<^verbatim>\<open>is_library_scanning\<close>\<close>
  | ComplWait     \<comment> \<open>\<^verbatim>\<open>_scan_completed\<close>: before \<^verbatim>\<open>with self._lock\<close>\<close>
  | ComplLocked   \<comment> \<open>\<^verbatim>\<open>_scan_completed\<close>: holding the lock\<close>
  | CallbacksWait bool
      \<comment> \<open>\<^verbatim>\<open>_call_completion_callbacks\<close>: before \<^verbatim>\<open>with self._lock\<close>; the argument is the
          local variable \<^verbatim>\<open>downloads_during_scan\<close> of \<^verbatim>\<open>_scan_completed\<close>\<close>
  | CallbacksLocked bool
      \<comment> \<open>\<^verbatim>\<open>_call_completion_callbacks\<close>: holding the lock\<close>
  | ComplFollowUp \<comment> \<open>\<^verbatim>\<open>_scan_completed\<close>: before the follow-up \<^verbatim>\<open>request_scan\<close>\<close>
  | Done          \<comment> \<open>the thread has returned\<close>

text \<open>
  The state: the attributes \<^verbatim>\<open>_timer\<close> (a timer is named by the number of its thread),
  \<^verbatim>\<open>_scan_in_progress\<close>, \<^verbatim>\<open>_downloads_during_scan\<close> and whether \<^verbatim>\<open>_scan_start_time\<close> is
  set; the holder of \<^verbatim>\<open>_lock\<close>; the position of every thread; the timers whose
  \<^verbatim>\<open>finished\<close> event has been set by \<^verbatim>\<open>cancel()\<close>; and two counters that observe the run:
  the calls of \<^verbatim>\<open>plex_client.trigger_library_scan\<close> and the follow-up calls of
  \<^verbatim>\<open>request_scan\<close> made by \<^verbatim>\<open>_scan_completed\<close>.
\<close>

record scan_state =
  timer :: "nat option"
  scan_in_progress :: bool
  downloads_during_scan :: bool
  scan_start_time_set :: bool
  lock :: "nat option"
  threads :: "pc list"
  cancelled :: "nat list"
  trigger_calls :: nat
  follow_ups :: nat

definition init_scan_state :: scan_state where
  "init_scan_state =
     \<lparr>timer = None, scan_in_progress = False, downloads_during_scan = False,
      scan_start_time_set = False, lock = None, threads = [], cancelled = [],
      trigger_calls = 0, follow_ups = 0\<rparr>"

text \<open>What a step is given from outside: the thread that moves, and for the three steps
  that ask the outside world, the answer.\<close>

datatype action =
    Request
      \<comment> \<open>a new thread calls \<^verbatim>\<open>request_scan\<close>\<close>
  | Step nat
      \<comment> \<open>the thread takes its next step\<close>
  | TriggerAnswer nat bool
      \<comment> \<open>at \<open>ExecTrigger\<close>: \<^verbatim>\<open>trigger_library_scan()\<close> returns this (\<open>False\<close> also
          stands for an exception, handled alike)\<close>
  | ClockAnswer nat bool
      \<comment> \<open>at \<open>PollLocked\<close>: whether more than \<^verbatim>\<open>_max_scan_time\<close> seconds have passed
          since \<^verbatim>\<open>_scan_start_time\<close>\<close>
  | ScanningAnswer nat "bool option"
      \<comment> \<open>at \<open>PollQuery\<close>: what \<^verbatim>\<open>is_library_scanning\<close> returns, \<open>None\<close> when it raises\<close>

definition pc_of :: "scan_state \<Rightarrow> nat \<Rightarrow> pc option" where
  "pc_of s i = (if i < length (threads s) then Some (threads s ! i) else None)"

definition set_pc :: "nat \<Rightarrow> pc \<Rightarrow> scan_state \<Rightarrow> scan_state" where
  "set_pc i p s = s\<lparr>threads := (threads s)[i := p]\<rparr>"

text \<open>\<^verbatim>\<open>with self._lock:\<close> on entry. The step is possible only while the lock is free.\<close>

definition acquire :: "nat \<Rightarrow> pc \<Rightarrow> scan_state \<Rightarrow> scan_state option" where
  "acquire i p s = (if lock s = None then Some (set_pc i p (s\<lparr>lock := Some i\<rparr>)) else None)"

definition release :: "scan_state \<Rightarrow> scan_state" where
  "release s = s\<lparr>lock := None\<rparr>"

text \<open>\<^verbatim>\<open>threading.Timer(...).start()\<close>: a new thread, asleep; its number is the length
  of the thread list before.\<close>

definition start_thread :: "pc \<Rightarrow> scan_state \<Rightarrow> scan_state" where
  "start_thread p s = s\<lparr>threads := threads s @ [p]\<rparr>"

text \<open>\<^verbatim>\<open>Timer.cancel()\<close> sets the \<^verbatim>\<open>finished\<close> event of the timer. \<^verbatim>\<open>Timer.run\<close> is
  \<^verbatim>\<open>self.finished.wait(self.interval); if not self.finished.is_set(): self.function()\<close>:
  the event is looked at once, when the thread wakes up.\<close>

definition cancel :: "nat \<Rightarrow> scan_state \<Rightarrow> scan_state" where
  "cancel t s = s\<lparr>cancelled := t # cancelled s\<rparr>"

definition timer_wakes :: "nat \<Rightarrow> scan_state \<Rightarrow> scan_state" where
  "timer_wakes i s = (if i \<in> set (cancelled s) then set_pc i Done s else set_pc i ExecWait s)"

text \<open>The body of \<^verbatim>\<open>request_scan\<close> under the lock, run by thread \<open>i\<close>.\<close>

definition request_scan :: "nat \<Rightarrow> scan_state \<Rightarrow> scan_state" where
  "request_scan i s =
     (if scan_in_progress s
      then release (set_pc i Done (s\<lparr>downloads_during_scan := True\<rparr>))
      else
        let s = (case timer s of Some t \<Rightarrow> cancel t s | None \<Rightarrow> s);
            s = s\<lparr>timer := Some (length (threads s))\<rparr>;
            s = start_thread TimerSleep s
        in release (set_pc i Done s))"

text \<open>The body of \<^verbatim>\<open>_execute_scan\<close> under the lock, and what follows the lock: the
  remote call, then the start of the monitoring or \<^verbatim>\<open>_reset_scan_state\<close>.\<close>

definition execute_scan_locked :: "nat \<Rightarrow> scan_state \<Rightarrow> scan_state" where
  "execute_scan_locked i s =
     (if scan_in_progress s then release (set_pc i Done s)
      else release (set_pc i ExecTrigger
             (s\<lparr>scan_in_progress := True, downloads_during_scan := False, timer := None,
                scan_start_time_set := True\<rparr>)))"

definition execute_scan_trigger :: "nat \<Rightarrow> bool \<Rightarrow> scan_state \<Rightarrow> scan_state" where
  "execute_scan_trigger i success s =
     (let s = s\<lparr>trigger_calls := trigger_calls s + 1\<rparr>
      in if success then set_pc i Done (start_thread PollSleep s)
         else set_pc i ResetWait s)"

definition reset_scan_state_locked :: "nat \<Rightarrow> scan_state \<Rightarrow> scan_state" where
  "reset_scan_state_locked i s =
     release (set_pc i Done (s\<lparr>scan_in_progress := False, scan_start_time_set := False\<rparr>))"

text \<open>
  The body of \<^verbatim>\<open>_poll_scan_status\<close> under the lock. In the timeout branch
  \<^verbatim>\<open>self._scan_completed()\<close> is called inside the \<^verbatim>\<open>with\<close> block: the thread goes to the
  entry of \<^verbatim>\<open>_scan_completed\<close> and still holds the lock.
\<close>

definition poll_scan_status_locked :: "nat \<Rightarrow> bool \<Rightarrow> scan_state \<Rightarrow> scan_state" where
  "poll_scan_status_locked i time_exceeded s =
     (if \<not> scan_in_progress s then release (set_pc i Done s)
      else if scan_start_time_set s \<and> time_exceeded then set_pc i ComplWait s
      else release (set_pc i PollQuery s))"

definition poll_scan_status_query :: "nat \<Rightarrow> bool option \<Rightarrow> scan_state \<Rightarrow> scan_state" where
  "poll_scan_status_query i is_scanning s =
     (case is_scanning of
        Some True \<Rightarrow> set_pc i Done (start_thread PollSleep s)
      | Some False \<Rightarrow> set_pc i ComplWait s
      | None \<Rightarrow> set_pc i ComplWait s)"

text \<open>
  The body of \<^verbatim>\<open>_scan_completed\<close> under the lock; the flag \<^verbatim>\<open>_downloads_during_scan\<close>
  is read and not written. After the lock comes \<^verbatim>\<open>_call_completion_callbacks\<close>, which
  takes the lock to copy the list of callbacks and runs them after releasing it, and
  then the follow-up \<^verbatim>\<open>request_scan\<close> if downloads were seen.
\<close>

definition scan_completed_locked :: "nat \<Rightarrow> scan_state \<Rightarrow> scan_state" where
  "scan_completed_locked i s =
     (let was_in_progress = scan_in_progress s;
          downloads = downloads_during_scan s;
          s = s\<lparr>scan_in_progress := False\<rparr>
      in if \<not> was_in_progress then release (set_pc i Done s)
         else release (set_pc i (CallbacksWait downloads) s))"

definition call_completion_callbacks_locked :: "nat \<Rightarrow> bool \<Rightarrow> scan_state \<Rightarrow> scan_state" where
  "call_completion_callbacks_locked i downloads s =
     (if downloads then release (set_pc i ComplFollowUp s) else release (set_pc i Done s))"

definition scan_completed_follow_up :: "nat \<Rightarrow> scan_state \<Rightarrow> scan_state" where
  "scan_completed_follow_up i s = set_pc i ReqWait (s\<lparr>follow_ups := follow_ups s + 1\<rparr>)"

text \<open>One step of thread \<open>i\<close> that asks nothing of the outside world.\<close>

definition thread_step :: "nat \<Rightarrow> scan_state \<Rightarrow> scan_state option" where
  "thread_step i s =
     (case pc_of s i of
        Some ReqWait \<Rightarrow> acquire i ReqLocked s
      | Some ReqLocked \<Rightarrow> Some (request_scan i s)
      | Some TimerSleep \<Rightarrow> Some (timer_wakes i s)
      | Some ExecWait \<Rightarrow> acquire i ExecLocked s
      | Some ExecLocked \<Rightarrow> Some (execute_scan_locked i s)
      | Some ResetWait \<Rightarrow> acquire i ResetLocked s
      | Some ResetLocked \<Rightarrow> Some (reset_scan_state_locked i s)
      | Some PollSleep \<Rightarrow> Some (set_pc i PollWait s)
      | Some PollWait \<Rightarrow> acquire i PollLocked s
      | Some ComplWait \<Rightarrow> acquire i ComplLocked s
      | Some ComplLocked \<Rightarrow> Some (scan_completed_locked i s)
      | Some (CallbacksWait downloads) \<Rightarrow> acquire i (CallbacksLocked downloads) s
      | Some (CallbacksLocked downloads) \<Rightarrow> Some (call_completion_callbacks_locked i downloads s)
      | Some ComplFollowUp \<Rightarrow> Some (scan_completed_follow_up i s)
      | _ \<Rightarrow> None)"

text \<open>One step of a run; \<open>None\<close> when the step is not possible in the state.\<close>

fun step :: "scan_state \<Rightarrow> action \<Rightarrow> scan_state option" where
  "step s Request = Some (start_thread ReqWait s)"
| "step s (Step i) = thread_step i s"
| "step s (TriggerAnswer i success) =
     (if pc_of s i = Some ExecTrigger then Some (execute_scan_trigger i success s) else None)"
| "step s (ClockAnswer i time_exceeded) =
     (if pc_of s i = Some PollLocked then Some (poll_scan_status_locked i time_exceeded s)
      else None)"
| "step s (ScanningAnswer i is_scanning) =
     (if pc_of s i = Some PollQuery then Some (poll_scan_status_query i is_scanning s)
      else None)"

fun run_from :: "scan_state \<Rightarrow> action list \<Rightarrow> scan_state option" where
  "run_from s [] = Some s"
| "run_from s (a # as) = (case step s a of None \<Rightarrow> None | Some s' \<Rightarrow> run_from s' as)"

definition run :: "action list \<Rightarrow> scan_state option" where
  "run as = run_from init_scan_state as"

text \<open>
  A state is stuck on thread \<open>k\<close> when \<open>k\<close> holds the lock while it waits for the lock
  at the entry of \<^verbatim>\<open>_scan_completed\<close>, and every other thread has returned or waits at
  the entry of \<^verbatim>\<open>request_scan\<close>.
\<close>

definition stuck_on :: "nat \<Rightarrow> scan_state \<Rightarrow> bool" where
  "stuck_on k s =
     (lock s = Some k \<and> pc_of s k = Some ComplWait
      \<and> list_all (\<lambda>j. j = k \<or> threads s ! j = ReqWait \<or> threads s ! j = Done)
           [0..<length (threads s)])"

section \<open>The matching engine\<close>

subsection \<open>The regular expressions of the cleaning patterns\<close>

text \<open>
  Every pattern of \<^verbatim>\<open>title_patterns\<close> and \<^verbatim>\<open>artist_patterns\<close> is a sequence of
  literal characters, \<^verbatim>\<open>\s*\<close>, \<^verbatim>\<open>\s+\<close>, \<^verbatim>\<open>.*\<close> and an optional literal (\<^verbatim>\<open>\.?\<close>). Such
  a pattern is a list of items, matched as \<^verbatim>\<open>re\<close> does: from left to right, each
  repetition taking as many characters as it can and giving them back one by one when
  the rest of the pattern fails. All patterns are used with \<^verbatim>\<open>re.IGNORECASE\<close>. The dot
  matches every character except the newline.
\<close>

datatype cls = Space | Dot

datatype item = Lit char | Opt char | Star cls | Plus cls

definition newline :: char where
  "newline = CHR 0x0A"

fun in_cls :: "cls \<Rightarrow> char \<Rightarrow> bool" where
  "in_cls Space c = is_space c"
| "in_cls Dot c = (c \<noteq> newline)"

definition lit_eq :: "char \<Rightarrow> char \<Rightarrow> bool" where
  "lit_eq p c = (lower_char c = lower_char p)"

text \<open>\<open>match_here p s\<close> is the text that follows the match of \<open>p\<close> at the start of
  \<open>s\<close>, if \<open>p\<close> matches there.\<close>

fun match_here :: "item list \<Rightarrow> string \<Rightarrow> string option" where
  "match_here [] s = Some s"
| "match_here (Lit p # r) [] = None"
| "match_here (Lit p # r) (x # xs) = (if lit_eq p x then match_here r xs else None)"
| "match_here (Opt p # r) [] = match_here r []"
| "match_here (Opt p # r) (x # xs) =
     (if lit_eq p x
      then (case match_here r xs of Some t \<Rightarrow> Some t | None \<Rightarrow> match_here r (x # xs))
      else match_here r (x # xs))"
| "match_here (Star k # r) [] = match_here r []"
| "match_here (Star k # r) (x # xs) =
     (if in_cls k x
      then (case match_here (Star k # r) xs of Some t \<Rightarrow> Some t | None \<Rightarrow> match_here r (x # xs))
      else match_here r (x # xs))"
| "match_here (Plus k # r) [] = None"
| "match_here (Plus k # r) (x # xs) = (if in_cls k x then match_here (Star k # r) xs else None)"

text \<open>\<^verbatim>\<open>re.sub(pattern, '', s, flags=re.IGNORECASE)\<close>: the leftmost match is removed and
  the search goes on behind it; where the pattern does not match (or matches the empty
  string) the character is kept.\<close>

function re_sub :: "item list \<Rightarrow> string \<Rightarrow> string" where
  "re_sub p [] = []"
| "re_sub p (x # xs) =
     (case match_here p (x # xs) of
        None \<Rightarrow> x # re_sub p xs
      | Some t \<Rightarrow> if length t < length (x # xs) then re_sub p t else x # re_sub p xs)"
  by pat_completeness auto
termination
  by (relation "measure (\<lambda>(p, s). length s)") auto

definition lits :: "string \<Rightarrow> item list" where
  "lits s = map Lit s"

text \<open>\<^verbatim>\<open>self.title_patterns\<close>, in the order of the source.\<close>

definition title_patterns :: "item list list" where
  "title_patterns =
     [ lits ''('' @ [Star Dot] @ lits '')'',
       lits ''['' @ [Star Dot] @ lits '']'',
       lits ''-'' @ [Star Space] @ lits ''single version'',
       lits ''-'' @ [Star Space] @ lits ''remaster'' @ [Star Dot],
       lits ''-'' @ [Star Space] @ lits ''live'' @ [Star Dot],
       lits ''-'' @ [Star Space] @ lits ''remix'',
       lits ''-'' @ [Star Space] @ lits ''radio edit'',
       [Plus Space] @ lits ''feat'' @ [Opt CHR ''.'', Star Dot],
       [Plus Space] @ lits ''ft'' @ [Opt CHR ''.'', Star Dot],
       [Plus Space] @ lits ''featuring'' @ [Star Dot] ]"

text \<open>\<^verbatim>\<open>self.artist_patterns\<close>, in the order of the source.\<close>

definition artist_patterns :: "item list list" where
  "artist_patterns =
     [ [Star Space] @ lits ''feat.'' @ [Star Dot],
       [Star Space] @ lits ''ft.'' @ [Star Dot],
       [Star Space] @ lits ''featuring'' @ [Star Dot],
       [Star Space] @ lits ''&'' @ [Star Dot],
       [Star Space] @ lits ''and'' @ [Star Dot],
       lits '','' @ [Star Dot] ]"

subsection \<open>Normalisation and cleaning\<close>

text \<open>The class \<^verbatim>\<open>\w\<close> of \<^verbatim>\<open>re\<close> on code points below 256: the ASCII letters and
  digits, the underscore, and the alphanumeric code points of Latin-1.\<close>

definition is_word :: "char \<Rightarrow> bool" where
  "is_word c =
     (is_lower_ascii c \<or> is_upper_ascii c \<or> is_digit c \<or> c = CHR ''_''
      \<or> code c \<in> {170, 178, 179, 181, 185, 186, 188, 189, 190}
      \<or> (192 \<le> code c \<and> code c \<noteq> 215 \<and> code c \<noteq> 247))"

text \<open>\<^verbatim>\<open>re.sub(r'\s+', ' ', text)\<close>.\<close>

function collapse_spaces :: "string \<Rightarrow> string" where
  "collapse_spaces [] = []"
| "collapse_spaces (x # xs) =
     (if is_space x then CHR '' '' # collapse_spaces (dropWhile is_space xs)
      else x # collapse_spaces xs)"
  by pat_completeness auto
termination
  by (relation "measure length") (auto simp: le_imp_less_Suc length_dropWhile_le)

text \<open>
  \<^verbatim>\<open>MusicMatchingEngine.normalize_string\<close>. The transliteration \<^verbatim>\<open>unidecode\<close> is a
  third-party function and a parameter \<open>ud\<close> here. \<^verbatim>\<open>if not text\<close> holds for \<^verbatim>\<open>None\<close>
  and for the empty string.
\<close>

definition normalize_string :: "(string \<Rightarrow> string) \<Rightarrow> string option \<Rightarrow> string" where
  "normalize_string ud text =
     (case text of
        None \<Rightarrow> []
      | Some t \<Rightarrow>
          if t = [] then []
          else
            let t = ud t;
                t = lower t;
                t = filter (\<lambda>c. is_word c \<or> is_space c \<or> c = CHR ''-'') t
            in strip (collapse_spaces t))"

text \<open>The characters that a normalised string may hold, and the strings without two
  adjacent spaces.\<close>

definition normal_char :: "char \<Rightarrow> bool" where
  "normal_char c =
     (is_lower_ascii c \<or> is_digit c \<or> c = CHR ''_'' \<or> c = CHR '' '' \<or> c = CHR ''-'')"

fun single_spaced :: "string \<Rightarrow> bool" where
  "single_spaced (x # y # zs) = (\<not> (x = CHR '' '' \<and> y = CHR '' '') \<and> single_spaced (y # zs))"
| "single_spaced [x] = True"
| "single_spaced [] = True"

text \<open>\<^verbatim>\<open>MusicMatchingEngine.clean_title\<close> and \<^verbatim>\<open>MusicMatchingEngine.clean_artist\<close>: the
  loop over the patterns is a left fold.\<close>

definition clean_title :: "(string \<Rightarrow> string) \<Rightarrow> string \<Rightarrow> string" where
  "clean_title ud title_text =
     normalize_string ud
       (Some (fold (\<lambda>pattern cleaned. strip (re_sub pattern cleaned)) title_patterns title_text))"

definition clean_artist :: "(string \<Rightarrow> string) \<Rightarrow> string \<Rightarrow> string" where
  "clean_artist ud artist_text =
     normalize_string ud
       (Some (fold (\<lambda>pattern cleaned. strip (re_sub pattern cleaned)) artist_patterns artist_text))"

text \<open>On ASCII text \<^verbatim>\<open>unidecode\<close> returns its argument; this instance is used where a
  concrete ASCII input is evaluated.\<close>

definition unidecode_ascii :: "string \<Rightarrow> string" where
  "unidecode_ascii s = s"

subsection \<open>Scores\<close>

text \<open>
  \<^verbatim>\<open>MusicMatchingEngine.similarity_score\<close>; \<open>ratio\<close> stands for
  \<^verbatim>\<open>SequenceMatcher(None, a, b).ratio()\<close> of \<^verbatim>\<open>difflib\<close>, a parameter.
\<close>

definition similarity_score :: "(string \<Rightarrow> string \<Rightarrow> rat) \<Rightarrow> string \<Rightarrow> string \<Rightarrow> rat" where
  "similarity_score ratio str1 str2 = (if str1 = [] \<or> str2 = [] then 0 else ratio str1 str2)"

text \<open>\<^verbatim>\<open>MusicMatchingEngine.duration_similarity\<close>.\<close>

definition duration_similarity :: "int \<Rightarrow> int \<Rightarrow> rat" where
  "duration_similarity duration1 duration2 =
     (if duration1 = 0 \<or> duration2 = 0 then 5 / 10
      else if \<bar>duration1 - duration2\<bar> \<le> 5000 then 1
      else
        let diff_ratio = of_int \<bar>duration1 - duration2\<bar> / of_int (max duration1 duration2)
        in max 0 (1 - diff_ratio * 5))"

record spotify_track =
  name :: string
  artists :: "string list"
  duration_ms :: int

record plex_track_info =
  title :: string
  artist :: string
  p_duration :: "int option"

text \<open>\<^verbatim>\<open>a in b\<close> on strings.\<close>

definition is_substring :: "string \<Rightarrow> string \<Rightarrow> bool" where
  "is_substring a b = (\<exists>i \<in> set [0..<Suc (length b)]. take (length a) (drop i b) = a)"

text \<open>The loop over the cleaned artists of the source track, with its \<^verbatim>\<open>break\<close> at a
  score of 1.0.\<close>

fun best_artist_loop ::
  "(string \<Rightarrow> string \<Rightarrow> rat) \<Rightarrow> string \<Rightarrow> string \<Rightarrow> string list \<Rightarrow> rat \<Rightarrow> rat" where
  "best_artist_loop ratio plex_clean plex_norm [] best = best"
| "best_artist_loop ratio plex_clean plex_norm (a # as) best =
     (let score = (if is_substring a plex_norm then 1 else similarity_score ratio a plex_clean)
      in if score > best
         then (if score = 1 then score
               else best_artist_loop ratio plex_clean plex_norm as score)
         else best_artist_loop ratio plex_clean plex_norm as best)"

definition artist_score ::
  "(string \<Rightarrow> string) \<Rightarrow> (string \<Rightarrow> string \<Rightarrow> rat) \<Rightarrow> spotify_track \<Rightarrow> plex_track_info \<Rightarrow> rat" where
  "artist_score ud ratio sp pl =
     best_artist_loop ratio (clean_artist ud (artist pl)) (normalize_string ud (Some (artist pl)))
       (map (clean_artist ud) (filter (\<lambda>a. a \<noteq> []) (artists sp))) 0"

definition title_score ::
  "(string \<Rightarrow> string) \<Rightarrow> (string \<Rightarrow> string \<Rightarrow> rat) \<Rightarrow> spotify_track \<Rightarrow> plex_track_info \<Rightarrow> rat" where
  "title_score ud ratio sp pl =
     similarity_score ratio (clean_title ud (name sp)) (clean_title ud (title pl))"

definition duration_score :: "spotify_track \<Rightarrow> plex_track_info \<Rightarrow> rat" where
  "duration_score sp pl =
     duration_similarity (duration_ms sp)
       (case p_duration pl of None \<Rightarrow> 0 | Some d \<Rightarrow> d)"

text \<open>\<^verbatim>\<open>MusicMatchingEngine.calculate_match_confidence\<close>.\<close>

definition calculate_match_confidence ::
  "(string \<Rightarrow> string) \<Rightarrow> (string \<Rightarrow> string \<Rightarrow> rat) \<Rightarrow> spotify_track \<Rightarrow> plex_track_info
   \<Rightarrow> rat \<times> string" where
  "calculate_match_confidence ud ratio sp pl =
     (let spotify_title_cleaned = clean_title ud (name sp);
          plex_title_cleaned = clean_title ud (title pl);
          a_score = artist_score ud ratio sp pl;
          t_score = title_score ud ratio sp pl;
          d_score = duration_score sp pl;
          confidence = t_score * (5 / 10) + a_score * (3 / 10) + d_score * (2 / 10);
          confidence =
            (if spotify_title_cleaned = plex_title_cleaned \<and> length spotify_title_cleaned > 0
             then max confidence (85 / 100) else confidence)
      in if t_score > 95 / 100 \<and> a_score > 9 / 10 \<and> d_score > 9 / 10
         then (max confidence (98 / 100), ''perfect_match'')
         else if t_score > 85 / 100 \<and> a_score > 8 / 10 then (confidence, ''high_confidence'')
         else if t_score > 75 / 100 then (confidence, ''medium_confidence'')
         else (confidence, ''low_confidence''))"

record match_result =
  m_spotify_track :: spotify_track
  m_plex_track :: "plex_track_info option"
  confidence :: rat
  match_type :: string

text \<open>\<^verbatim>\<open>MatchResult.is_match\<close>.\<close>

definition is_match :: "match_result \<Rightarrow> bool" where
  "is_match m = (m_plex_track m \<noteq> None \<and> confidence m \<ge> 8 / 10)"

text \<open>\<^verbatim>\<open>MusicMatchingEngine.find_best_match\<close>: the loop keeps the triple
  (\<open>best_match\<close>, \<open>best_confidence\<close>, \<open>best_match_type\<close>).\<close>

definition best_step ::
  "(string \<Rightarrow> string) \<Rightarrow> (string \<Rightarrow> string \<Rightarrow> rat) \<Rightarrow> spotify_track \<Rightarrow> plex_track_info
   \<Rightarrow> plex_track_info option \<times> rat \<times> string \<Rightarrow> plex_track_info option \<times> rat \<times> string" where
  "best_step ud ratio sp pl best =
     (case calculate_match_confidence ud ratio sp pl of
        (conf, mtype) \<Rightarrow>
          if conf > fst (snd best) then (Some pl, conf, mtype) else best)"

definition find_best_match ::
  "(string \<Rightarrow> string) \<Rightarrow> (string \<Rightarrow> string \<Rightarrow> rat) \<Rightarrow> spotify_track \<Rightarrow> plex_track_info list
   \<Rightarrow> match_result" where
  "find_best_match ud ratio sp plex_tracks =
     (if plex_tracks = []
      then \<lparr>m_spotify_track = sp, m_plex_track = None, confidence = 0,
            match_type = ''no_candidates''\<rparr>
      else
        case fold (best_step ud ratio sp) plex_tracks (None, 0, ''no_match'') of
          (best_match, best_confidence, best_match_type) \<Rightarrow>
            \<lparr>m_spotify_track = sp, m_plex_track = best_match, confidence = best_confidence,
             match_type = best_match_type\<rparr>)"

text \<open>The two components of the result of \<^verbatim>\<open>calculate_match_confidence\<close>.\<close>

definition conf_of ::
  "(string \<Rightarrow> string) \<Rightarrow> (string \<Rightarrow> string \<Rightarrow> rat) \<Rightarrow> spotify_track \<Rightarrow> plex_track_info \<Rightarrow> rat" where
  "conf_of ud ratio sp pl = fst (calculate_match_confidence ud ratio sp pl)"

definition tier_of ::
  "(string \<Rightarrow> string) \<Rightarrow> (string \<Rightarrow> string \<Rightarrow> rat) \<Rightarrow> spotify_track \<Rightarrow> plex_track_info \<Rightarrow> string" where
  "tier_of ud ratio sp pl = snd (calculate_match_confidence ud ratio sp pl)"

section \<open>Properties of the quality scores\<close>

text \<open>
  C1, as stated: the score of a track is capped at 1.0 and the score of an album is not,
  so that an album of dominant quality flac with 8 to 20 tracks, from a peer with a free
  upload slot and an upload speed above 100, scores more than 1.0. The album named by
  the claim scores exactly 1: \<^verbatim>\<open>AlbumResult.quality_score\<close> ends with the same
  \<^verbatim>\<open>min(base_score, 1.0)\<close> as the score of a track.
\<close>

theorem album_score_above_one_counterexample:
  "\<not> album_quality_score
        \<lparr>a_username = ''peer'', album_path = ''Music/Album'', track_count = 10,
         total_size = 0, tracks = [], dominant_quality = ''flac'',
         a_free_upload_slots = 1, a_upload_speed = 101, a_queue_length = 0\<rparr> > 1"
  by (simp add: album_quality_score_def)

text \<open>
  C1, amended: the score of every track result and the score of every album result are
  both at most 1.0.
\<close>

theorem quality_scores_capped:
  "quality_score t \<le> 1 \<and> album_quality_score a \<le> 1"
  by (simp add: quality_score_def album_quality_score_def)

section \<open>Properties of the response processing\<close>

text \<open>
  C2 at a failing input. Two peers report the same path: alice shares two files of the
  directory \<^verbatim>\<open>Music/Album\<close>, bob shares one file with the path of alice's first file.
  (No pattern of the track-number inference matches the base names \<^verbatim>\<open>one\<close> and \<^verbatim>\<open>two\<close>,
  so the inference gives \<^verbatim>\<open>None\<close>.) Three tracks are parsed. Alice's two tracks form the
  only album; bob's track belongs to no album, and is not in the list of individual
  tracks either, because that list is filtered by file name alone and alice's album
  holds the same file name. The track is lost.
\<close>

theorem process_search_responses_drops_track:
  "(let alice = \<lparr>r_username = ''alice'',
                  r_files = [\<lparr>f_filename = ''Music/Album/one.mp3'', f_size = 1,
                              f_bitRate = None, f_length = None\<rparr>,
                             \<lparr>f_filename = ''Music/Album/two.mp3'', f_size = 1,
                              f_bitRate = None, f_length = None\<rparr>],
                  r_freeUploadSlots = 0, r_uploadSpeed = 0, r_queueLength = 0\<rparr>;
        bob = \<lparr>r_username = ''bob'',
                r_files = [\<lparr>f_filename = ''Music/Album/one.mp3'', f_size = 1,
                            f_bitRate = None, f_length = None\<rparr>],
                r_freeUploadSlots = 0, r_uploadSpeed = 0, r_queueLength = 0\<rparr>;
        out = process_search_responses (\<lambda>f. None) [alice, bob]
    in map username (parsed_tracks (\<lambda>f. None) [alice, bob]) = [''alice'', ''alice'', ''bob'']
       \<and> fst out = []
       \<and> map (\<lambda>a. map username (tracks a)) (snd out) = [[''alice'', ''alice'']])"
  by code_simp

text \<open>
  The other half of the aggregation does hold: every album that is emitted has at least
  two member tracks, and all of them come from the peer of the album and have the path
  of the album as their derived directory path.
\<close>

lemma group_append_ok:
  assumes "\<forall>g \<in> set gs. group_ok g"
    and "username t = fst k" "extract_album_path (filename t) = Some (snd k)"
  shows "\<forall>g \<in> set (group_append k t gs). group_ok g"
  using assms
proof (induction gs)
  case Nil
  then show ?case by (simp add: group_ok_def)
next
  case (Cons g gs)
  obtain k' ts where g: "g = (k', ts)" by (cases g)
  show ?case
  proof (cases "k' = k")
    case True
    then show ?thesis using Cons.prems g by (auto simp: group_ok_def)
  next
    case False
    then show ?thesis using Cons g by auto
  qed
qed

lemma process_file_ok:
  assumes "\<forall>g \<in> set (snd st). group_ok g"
  shows "\<forall>g \<in> set (snd (process_file tn r fd st)). group_ok g"
proof (cases "extract_album_path (f_filename fd)")
  case None
  then show ?thesis using assms by (simp add: process_file_def Let_def)
next
  case (Some p)
  let ?t = "make_track tn r fd (quality_of_ext (file_ext (f_filename fd)))"
  have "\<forall>g \<in> set (group_append (r_username r, p) ?t (snd st)). group_ok g"
    using assms Some by (intro group_append_ok) (simp_all add: make_track_def)
  then show ?thesis using assms Some by (simp add: process_file_def Let_def)
qed

lemma fold_process_file_ok:
  "\<forall>g \<in> set (snd st). group_ok g \<Longrightarrow>
   \<forall>g \<in> set (snd (fold (process_file tn r) fds st)). group_ok g"
proof (induction fds arbitrary: st)
  case Nil
  then show ?case by simp
next
  case (Cons fd fds)
  show ?case using Cons.IH [OF process_file_ok [OF Cons.prems, of tn r fd]] by simp
qed

lemma fold_process_response_ok:
  "\<forall>g \<in> set (snd st). group_ok g \<Longrightarrow>
   \<forall>g \<in> set (snd (fold (process_response tn) rs st)). group_ok g"
proof (induction rs arbitrary: st)
  case Nil
  then show ?case by simp
next
  case (Cons r rs)
  have "\<forall>g \<in> set (snd (process_response tn r st)). group_ok g"
    unfolding process_response_def using Cons.prems by (rule fold_process_file_ok)
  then show ?case using Cons.IH by simp
qed

lemma create_album_members:
  assumes "create_album g = Some a" "group_ok g"
  shows "2 \<le> length (tracks a)
         \<and> (\<forall>t \<in> set (tracks a). username t = a_username a
               \<and> extract_album_path (filename t) = Some (album_path a))"
proof -
  obtain user path ts where g: "g = ((user, path), ts)" by (cases g) auto
  have len: "\<not> length ts < 2" using assms(1) g by (auto simp: create_album_def split: if_splits)
  have a: "tracks a = sort_key track_key ts" "a_username a = user" "album_path a = path"
    using assms(1) g len by (auto simp: create_album_def)
  show ?thesis using a len assms(2) g by (auto simp: group_ok_def)
qed

lemma albums_have_two_tracks_of_one_peer_and_path:
  assumes "a \<in> set (snd (process_search_responses tn responses_data))"
  shows "2 \<le> length (tracks a)
         \<and> (\<forall>t \<in> set (tracks a). username t = a_username a
               \<and> extract_album_path (filename t) = Some (album_path a))"
proof -
  let ?st = "fold (process_response tn) responses_data ([], [])"
  have "a \<in> set (create_album_results (snd ?st))"
    using assms by (simp add: process_search_responses_def Let_def)
  then obtain g where g: "g \<in> set (snd ?st)" "create_album g = Some a"
    by (auto simp: create_album_results_def map_filter_def)
  have "\<forall>g \<in> set (snd ?st). group_ok g"
    by (rule fold_process_response_ok) simp
  then have "group_ok g" using g(1) by blast
  then show ?thesis using create_album_members [OF g(2)] by blast
qed

section \<open>Properties of the search loop\<close>

lemma sorted_sort_desc: "sorted_wrt (\<ge>) (map f (sort_desc f xs))"
proof -
  have "sorted (map f (sort_key f (rev xs)))" by (rule sorted_sort_key)
  then show ?thesis by (simp add: sort_desc_def rev_map [symmetric] sorted_wrt_rev)
qed

lemma poll_step_polls: "polls (fst (poll_step tn cb reply st)) = polls st + 1"
  by (simp add: poll_step_def Let_def split: option.splits)

lemma poll_step_log:
  assumes "\<forall>e \<in> set (callback_log st). log_sorted e"
  shows "\<forall>e \<in> set (callback_log (fst (poll_step tn cb reply st))). log_sorted e"
  using assms
  by (auto simp: poll_step_def Let_def log_sorted_def sorted_sort_desc split: option.splits)

lemma poll_step_continue:
  assumes "length (all_responses st) < 30" "\<not> snd (poll_step tn cb reply st)"
  shows "length (all_responses (fst (poll_step tn cb reply st))) < 30"
  using assms
  by (auto simp: poll_step_def Let_def split: option.splits if_splits)

lemma poll_loop_polls: "polls (poll_loop tn cb replies n k st) \<le> polls st + n"
proof (induction n arbitrary: k st)
  case 0
  then show ?case by simp
next
  case (Suc n)
  obtain st' brk where ps: "poll_step tn cb (replies k) st = (st', brk)"
    by (cases "poll_step tn cb (replies k) st")
  have p: "polls st' = polls st + 1" using poll_step_polls [of tn cb "replies k" st] ps by simp
  show ?case
  proof (cases brk)
    case True
    then show ?thesis using ps p by simp
  next
    case False
    then show ?thesis using ps p Suc.IH [of "Suc k" st'] by simp
  qed
qed

lemma poll_loop_log:
  assumes "\<forall>e \<in> set (callback_log st). log_sorted e"
  shows "\<forall>e \<in> set (callback_log (poll_loop tn cb replies n k st)). log_sorted e"
  using assms
proof (induction n arbitrary: k st)
  case 0
  then show ?case by simp
next
  case (Suc n)
  obtain st' brk where ps: "poll_step tn cb (replies k) st = (st', brk)"
    by (cases "poll_step tn cb (replies k) st")
  have l: "\<forall>e \<in> set (callback_log st'). log_sorted e"
    using poll_step_log [OF Suc.prems, of tn cb "replies k"] ps by simp
  show ?case
  proof (cases brk)
    case True
    then show ?thesis using ps l by simp
  next
    case False
    then show ?thesis using ps Suc.IH [OF l, of "Suc k"] by simp
  qed
qed

lemma poll_loop_stable:
  assumes "length (all_responses st) < 30"
    and "30 \<le> length (all_responses (poll_loop tn cb replies n k st))"
    and "n \<le> m"
  shows "poll_loop tn cb replies m k st = poll_loop tn cb replies n k st"
  using assms
proof (induction n arbitrary: k st m)
  case 0
  then show ?case by simp
next
  case (Suc n)
  obtain m' where m: "m = Suc m'" and nm: "n \<le> m'"
    using Suc.prems(3) by (cases m) auto
  obtain st' brk where ps: "poll_step tn cb (replies k) st = (st', brk)"
    by (cases "poll_step tn cb (replies k) st")
  show ?case
  proof (cases brk)
    case True
    then show ?thesis using ps m by simp
  next
    case False
    have lt: "length (all_responses st') < 30"
      using poll_step_continue [OF Suc.prems(1), of tn cb "replies k"] ps False by simp
    have ge: "30 \<le> length (all_responses (poll_loop tn cb replies n (Suc k) st'))"
      using Suc.prems(2) ps False by simp
    show ?thesis using Suc.IH [OF lt ge nm] ps False m by simp
  qed
qed

lemma max_polls_floor: "int (max_polls timeout) = max 0 \<lfloor>of_int timeout / (15 / 10 :: rat)\<rfloor>"
proof -
  have "of_int timeout / (15 / 10 :: rat) = of_int (2 * timeout) / of_int 3" by simp
  then have "\<lfloor>of_int timeout / (15 / 10 :: rat)\<rfloor> = (2 * timeout) div 3"
    by (simp only: floor_divide_of_int_eq)
  then show ?thesis by (simp add: max_polls_def)
qed

lemma run_polls_polls: "polls (run_polls tn cb replies n) \<le> n"
  using poll_loop_polls [of tn cb replies n 0 initial_search_state]
  by (simp add: run_polls_def initial_search_state_def)

lemma run_polls_log: "\<forall>e \<in> set (callback_log (run_polls tn cb replies n)). log_sorted e"
  unfolding run_polls_def
  by (rule poll_loop_log) (simp add: initial_search_state_def)

lemma search_cases:
  "search tn configured cb post replies timeout = initial_search_state
   \<or> search tn configured cb post replies timeout = run_polls tn cb replies (max_polls timeout)"
  by (simp add: search_def split: option.splits)

text \<open>
  C5. A search issues at most \<open>\<lfloor>timeout / 1.5\<rfloor>\<close> polls (none when that number is
  negative). \<open>run_polls \<dots> k\<close> is the state in which the loop ends when it may poll at most
  \<open>k\<close> times: if that state holds 30 responses or more, the loop has ended within \<open>k\<close>
  polls, and with any larger bound \<open>n\<close> it ends in the very same state, that is, without
  a further poll or callback. Every invocation of the progress callback receives a track
  list and an album list in non-increasing order of quality score.
\<close>

theorem search_polls_bounded_early_exit_sorted:
  "int (polls (search tn configured cb post replies timeout))
     \<le> max 0 \<lfloor>of_int timeout / (15 / 10 :: rat)\<rfloor>
   \<and> (\<forall>k n. k \<le> n \<and> 30 \<le> length (all_responses (run_polls tn cb replies k))
        \<longrightarrow> polls (run_polls tn cb replies k) \<le> k
            \<and> run_polls tn cb replies n = run_polls tn cb replies k)
   \<and> (\<forall>e \<in> set (callback_log (search tn configured cb post replies timeout)). log_sorted e)"
proof (intro conjI allI impI)
  have "polls (search tn configured cb post replies timeout) \<le> max_polls timeout"
    using search_cases [of tn configured cb post replies timeout]
      run_polls_polls [of tn cb replies "max_polls timeout"]
    by (auto simp: initial_search_state_def)
  then have "int (polls (search tn configured cb post replies timeout)) \<le> int (max_polls timeout)"
    by simp
  then show "int (polls (search tn configured cb post replies timeout))
     \<le> max 0 \<lfloor>of_int timeout / (15 / 10 :: rat)\<rfloor>"
    by (simp only: max_polls_floor)
next
  fix k n
  assume "k \<le> n \<and> 30 \<le> length (all_responses (run_polls tn cb replies k))"
  then show "polls (run_polls tn cb replies k) \<le> k"
    by (simp add: run_polls_polls)
next
  fix k n
  assume a: "k \<le> n \<and> 30 \<le> length (all_responses (run_polls tn cb replies k))"
  have "length (all_responses initial_search_state) < 30"
    by (simp add: initial_search_state_def)
  then show "run_polls tn cb replies n = run_polls tn cb replies k"
    using a poll_loop_stable [of initial_search_state tn cb replies k 0 n]
    by (simp add: run_polls_def)
next
  show "\<forall>e \<in> set (callback_log (search tn configured cb post replies timeout)). log_sorted e"
    using search_cases [of tn configured cb post replies timeout]
      run_polls_log [of tn cb replies "max_polls timeout"]
    by (auto simp: initial_search_state_def)
qed

theorem search_polls_bounded_early_exit_sorted_witness:
  "(2::nat) \<le> 20
   \<and> 30 \<le> length (all_responses (run_polls (\<lambda>f. None) True
            (\<lambda>k. if k = 0 then None
                 else Some (replicate 30
                   \<lparr>r_username = ''peer'',
                    r_files = [\<lparr>f_filename = ''Music/Album/one.flac'', f_size = 1,
                                f_bitRate = Some 320, f_length = None\<rparr>],
                    r_freeUploadSlots = 1, r_uploadSpeed = 0, r_queueLength = 0\<rparr>)) 2))
   \<and> run_polls (\<lambda>f. None) True
            (\<lambda>k. if k = 0 then None
                 else Some (replicate 30
                   \<lparr>r_username = ''peer'',
                    r_files = [\<lparr>f_filename = ''Music/Album/one.flac'', f_size = 1,
                                f_bitRate = Some 320, f_length = None\<rparr>],
                    r_freeUploadSlots = 1, r_uploadSpeed = 0, r_queueLength = 0\<rparr>)) 20
       = run_polls (\<lambda>f. None) True
            (\<lambda>k. if k = 0 then None
                 else Some (replicate 30
                   \<lparr>r_username = ''peer'',
                    r_files = [\<lparr>f_filename = ''Music/Album/one.flac'', f_size = 1,
                                f_bitRate = Some 320, f_length = None\<rparr>],
                    r_freeUploadSlots = 1, r_uploadSpeed = 0, r_queueLength = 0\<rparr>)) 2
   \<and> callback_log (search (\<lambda>f. None) True True (Some (Some ''id''))
            (\<lambda>k. if k = 0 then None
                 else Some (replicate 30
                   \<lparr>r_username = ''peer'',
                    r_files = [\<lparr>f_filename = ''Music/Album/one.flac'', f_size = 1,
                                f_bitRate = Some 320, f_length = None\<rparr>],
                    r_freeUploadSlots = 1, r_uploadSpeed = 0, r_queueLength = 0\<rparr>)) 30) \<noteq> []
   \<and> log_sorted (hd (callback_log (search (\<lambda>f. None) True True (Some (Some ''id''))
            (\<lambda>k. if k = 0 then None
                 else Some (replicate 30
                   \<lparr>r_username = ''peer'',
                    r_files = [\<lparr>f_filename = ''Music/Album/one.flac'', f_size = 1,
                                f_bitRate = Some 320, f_length = None\<rparr>],
                    r_freeUploadSlots = 1, r_uploadSpeed = 0, r_queueLength = 0\<rparr>)) 30)))"
proof -
  let ?replies = "\<lambda>k::nat. if k = 0 then None
                 else Some (replicate 30
                   \<lparr>r_username = ''peer'',
                    r_files = [\<lparr>f_filename = ''Music/Album/one.flac'', f_size = 1,
                                f_bitRate = Some 320, f_length = None\<rparr>],
                    r_freeUploadSlots = 1, r_uploadSpeed = 0, r_queueLength = 0\<rparr>)"
  let ?tn = "\<lambda>f::string. None :: int option"
  note inst = search_polls_bounded_early_exit_sorted
    [of ?tn True True "Some (Some ''id'')" ?replies 30]
  have full: "30 \<le> length (all_responses (run_polls ?tn True ?replies 2))"
    by code_simp
  have ne: "callback_log (search ?tn True True (Some (Some ''id'')) ?replies 30) \<noteq> []"
    by code_simp
  have same: "run_polls ?tn True ?replies 20 = run_polls ?tn True ?replies 2"
    using inst full by simp
  have "hd (callback_log (search ?tn True True (Some (Some ''id'')) ?replies 30))
          \<in> set (callback_log (search ?tn True True (Some (Some ''id'')) ?replies 30))"
    using ne by simp
  then have "log_sorted (hd (callback_log (search ?tn True True (Some (Some ''id'')) ?replies 30)))"
    using inst by blast
  then show ?thesis using full ne same by simp
qed

section \<open>Properties of the matching engine\<close>

text \<open>
  C10. The pattern \<^verbatim>\<open>\s*and.*\<close> of \<^verbatim>\<open>artist_patterns\<close> has no word boundary: in
  \<^verbatim>\<open>Band of Horses\<close> it matches from the second character to the end, and
  \<^verbatim>\<open>clean_artist\<close> returns \<^verbatim>\<open>b\<close>.
\<close>

theorem clean_artist_band_of_horses:
  "clean_artist unidecode_ascii ''Band of Horses'' = ''b''"
  by code_simp

text \<open>
  C6. The tier is decided by strict comparisons, the first test that holds wins; a
  perfect match has a confidence of at least 0.98; a title, artist or duration score that
  is exactly on its threshold (0.95, 0.9, 0.9) does not give a perfect match.
\<close>

theorem match_tiers_strict:
  "tier_of ud ratio sp pl =
     (if title_score ud ratio sp pl > 95 / 100 \<and> artist_score ud ratio sp pl > 9 / 10
         \<and> duration_score sp pl > 9 / 10
      then ''perfect_match''
      else if title_score ud ratio sp pl > 85 / 100 \<and> artist_score ud ratio sp pl > 8 / 10
      then ''high_confidence''
      else if title_score ud ratio sp pl > 75 / 100 then ''medium_confidence''
      else ''low_confidence'')
   \<and> (title_score ud ratio sp pl > 95 / 100 \<and> artist_score ud ratio sp pl > 9 / 10
        \<and> duration_score sp pl > 9 / 10
       \<longrightarrow> conf_of ud ratio sp pl \<ge> 98 / 100)
   \<and> (title_score ud ratio sp pl = 95 / 100 \<or> artist_score ud ratio sp pl = 9 / 10
        \<or> duration_score sp pl = 9 / 10
       \<longrightarrow> tier_of ud ratio sp pl \<noteq> ''perfect_match'')"
  by (simp add: tier_of_def conf_of_def calculate_match_confidence_def Let_def)

theorem match_tiers_strict_witness:
  "title_score unidecode_ascii (\<lambda>a b. 1)
      \<lparr>name = ''Song'', artists = [''Queen''], duration_ms = 200000\<rparr>
      \<lparr>title = ''Song'', artist = ''Queen'', p_duration = Some 200000\<rparr> > 95 / 100
   \<and> artist_score unidecode_ascii (\<lambda>a b. 1)
      \<lparr>name = ''Song'', artists = [''Queen''], duration_ms = 200000\<rparr>
      \<lparr>title = ''Song'', artist = ''Queen'', p_duration = Some 200000\<rparr> > 9 / 10
   \<and> duration_score
      \<lparr>name = ''Song'', artists = [''Queen''], duration_ms = 200000\<rparr>
      \<lparr>title = ''Song'', artist = ''Queen'', p_duration = Some 200000\<rparr> > 9 / 10
   \<and> conf_of unidecode_ascii (\<lambda>a b. 1)
      \<lparr>name = ''Song'', artists = [''Queen''], duration_ms = 200000\<rparr>
      \<lparr>title = ''Song'', artist = ''Queen'', p_duration = Some 200000\<rparr> \<ge> 98 / 100
   \<and> tier_of unidecode_ascii (\<lambda>a b. 1)
      \<lparr>name = ''Song'', artists = [''Queen''], duration_ms = 200000\<rparr>
      \<lparr>title = ''Song'', artist = ''Queen'', p_duration = Some 200000\<rparr> = ''perfect_match''
   \<and> title_score unidecode_ascii (\<lambda>a b. 95 / 100)
      \<lparr>name = ''Song'', artists = [''Queen''], duration_ms = 200000\<rparr>
      \<lparr>title = ''Sung'', artist = ''Queen'', p_duration = Some 200000\<rparr> = 95 / 100
   \<and> tier_of unidecode_ascii (\<lambda>a b. 95 / 100)
      \<lparr>name = ''Song'', artists = [''Queen''], duration_ms = 200000\<rparr>
      \<lparr>title = ''Sung'', artist = ''Queen'', p_duration = Some 200000\<rparr> \<noteq> ''perfect_match''"
proof -
  let ?sp = "\<lparr>name = ''Song'', artists = [''Queen''], duration_ms = 200000\<rparr>"
  let ?pl = "\<lparr>title = ''Song'', artist = ''Queen'', p_duration = Some 200000\<rparr>"
  let ?pl' = "\<lparr>title = ''Sung'', artist = ''Queen'', p_duration = Some 200000\<rparr>"
  have t: "title_score unidecode_ascii (\<lambda>a b. 1) ?sp ?pl > 95 / 100" by code_simp
  have a: "artist_score unidecode_ascii (\<lambda>a b. 1) ?sp ?pl > 9 / 10" by code_simp
  have d: "duration_score ?sp ?pl > 9 / 10" by code_simp
  have t': "title_score unidecode_ascii (\<lambda>a b. 95 / 100) ?sp ?pl' = 95 / 100" by code_simp
  have p: "conf_of unidecode_ascii (\<lambda>a b. 1) ?sp ?pl \<ge> 98 / 100
           \<and> tier_of unidecode_ascii (\<lambda>a b. 1) ?sp ?pl = ''perfect_match''"
    using match_tiers_strict [of unidecode_ascii "\<lambda>a b. 1" ?sp ?pl] t a d by simp
  have q: "tier_of unidecode_ascii (\<lambda>a b. 95 / 100) ?sp ?pl' \<noteq> ''perfect_match''"
    using match_tiers_strict [of unidecode_ascii "\<lambda>a b. 95 / 100" ?sp ?pl'] t' by blast
  show ?thesis using t a d t' p q by blast
qed

text \<open>
  C7. When the cleaned titles of the source track and of the candidate are equal and not
  empty, the confidence is at least 0.85, whatever the artist and duration scores are.
\<close>

theorem exact_title_boost:
  "clean_title ud (name sp) = clean_title ud (title pl) \<and> clean_title ud (name sp) \<noteq> []
   \<longrightarrow> conf_of ud ratio sp pl \<ge> 85 / 100"
proof
  assume same: "clean_title ud (name sp) = clean_title ud (title pl)
                \<and> clean_title ud (name sp) \<noteq> []"
  let ?c = "title_score ud ratio sp pl * (5 / 10) + artist_score ud ratio sp pl * (3 / 10)
            + duration_score sp pl * (2 / 10)"
  let ?perfect = "title_score ud ratio sp pl > 95 / 100 \<and> artist_score ud ratio sp pl > 9 / 10
                  \<and> duration_score sp pl > 9 / 10"
  have c: "conf_of ud ratio sp pl =
             (if ?perfect then max (max ?c (85 / 100)) (98 / 100) else max ?c (85 / 100))"
  proof -
    have boost: "clean_title ud (name sp) = clean_title ud (title pl)
                 \<and> length (clean_title ud (name sp)) > 0"
      using same by (metis length_greater_0_conv)
    show ?thesis
      unfolding conf_of_def calculate_match_confidence_def Let_def if_P [OF boost]
      by (auto simp only: fst_conv split: if_split)
  qed
  have b: "(85 / 100 :: rat) \<le> max ?c (85 / 100)"
    by (rule max.cobounded2)
  have b': "(85 / 100 :: rat) \<le> max (max ?c (85 / 100)) (98 / 100)"
    using b by (rule max.coboundedI1)
  show "conf_of ud ratio sp pl \<ge> 85 / 100"
  proof (cases ?perfect)
    case True
    show ?thesis by (simp only: c if_P [OF True] b')
  next
    case False
    show ?thesis by (simp only: c if_not_P [OF False] b)
  qed
qed

theorem exact_title_boost_witness:
  "clean_title unidecode_ascii ''Bohemian Rhapsody - Remastered 2011''
     = clean_title unidecode_ascii ''Bohemian Rhapsody''
   \<and> clean_title unidecode_ascii ''Bohemian Rhapsody - Remastered 2011'' \<noteq> []
   \<and> conf_of unidecode_ascii (\<lambda>a b. 0)
        \<lparr>name = ''Bohemian Rhapsody - Remastered 2011'', artists = [''Queen''],
         duration_ms = 355000\<rparr>
        \<lparr>title = ''Bohemian Rhapsody'', artist = ''Freddie'', p_duration = Some 154000\<rparr>
       \<ge> 85 / 100"
proof -
  have e: "clean_title unidecode_ascii ''Bohemian Rhapsody - Remastered 2011''
     = clean_title unidecode_ascii ''Bohemian Rhapsody''" by code_simp
  have n: "clean_title unidecode_ascii ''Bohemian Rhapsody - Remastered 2011'' \<noteq> []"
    by code_simp
  show ?thesis
    using exact_title_boost [of unidecode_ascii
        "\<lparr>name = ''Bohemian Rhapsody - Remastered 2011'', artists = [''Queen''],
          duration_ms = 355000\<rparr>"
        "\<lparr>title = ''Bohemian Rhapsody'', artist = ''Freddie'', p_duration = Some 154000\<rparr>"
        "\<lambda>a b. 0"] e n
    by simp
qed

lemma best_step_eq:
  "best_step ud ratio sp pl b =
     (if conf_of ud ratio sp pl > fst (snd b)
      then (Some pl, conf_of ud ratio sp pl, tier_of ud ratio sp pl)
      else b)"
  by (cases "calculate_match_confidence ud ratio sp pl")
     (simp add: best_step_def conf_of_def tier_of_def)

lemma fold_best_step_none:
  "\<forall>c \<in> set cs. conf_of ud ratio sp c \<le> fst (snd b) \<Longrightarrow> fold (best_step ud ratio sp) cs b = b"
  by (induction cs arbitrary: b) (auto simp: best_step_eq)

lemma fold_best_step_some:
  "\<not> (\<forall>c \<in> set cs. conf_of ud ratio sp c \<le> fst (snd b)) \<Longrightarrow>
   \<exists>pre c post. cs = pre @ c # post
      \<and> fold (best_step ud ratio sp) cs b = (Some c, conf_of ud ratio sp c, tier_of ud ratio sp c)
      \<and> fst (snd b) < conf_of ud ratio sp c
      \<and> (\<forall>x \<in> set pre. conf_of ud ratio sp x < conf_of ud ratio sp c)
      \<and> (\<forall>x \<in> set post. conf_of ud ratio sp x \<le> conf_of ud ratio sp c)"
proof (induction cs arbitrary: b)
  case Nil
  then show ?case by simp
next
  case (Cons a cs)
  let ?conf = "conf_of ud ratio sp"
  let ?tier = "tier_of ud ratio sp"
  let ?f = "best_step ud ratio sp"
  show ?case
  proof (cases "?conf a > fst (snd b)")
    case True
    let ?b' = "(Some a, ?conf a, ?tier a)"
    have step: "?f a b = ?b'" using True by (simp add: best_step_eq)
    show ?thesis
    proof (cases "\<forall>c \<in> set cs. ?conf c \<le> ?conf a")
      case all: True
      then have "fold ?f cs ?b' = ?b'" using fold_best_step_none [of cs ud ratio sp ?b'] by simp
      then have "a # cs = [] @ a # cs \<and> fold ?f (a # cs) b = (Some a, ?conf a, ?tier a)
          \<and> fst (snd b) < ?conf a \<and> (\<forall>x \<in> set []. ?conf x < ?conf a) \<and> (\<forall>x \<in> set cs. ?conf x \<le> ?conf a)"
        using step True all by simp
      then show ?thesis by blast
    next
      case False
      then have "\<exists>pre c post. cs = pre @ c # post \<and> fold ?f cs ?b' = (Some c, ?conf c, ?tier c)
        \<and> fst (snd ?b') < ?conf c \<and> (\<forall>x \<in> set pre. ?conf x < ?conf c) \<and> (\<forall>x \<in> set post. ?conf x \<le> ?conf c)"
        using Cons.IH [of ?b'] by simp
      then obtain pre c post where d: "cs = pre @ c # post"
        "fold ?f cs ?b' = (Some c, ?conf c, ?tier c)"
        "?conf a < ?conf c" "\<forall>x \<in> set pre. ?conf x < ?conf c" "\<forall>x \<in> set post. ?conf x \<le> ?conf c"
        by auto
      have "a # cs = (a # pre) @ c # post \<and> fold ?f (a # cs) b = (Some c, ?conf c, ?tier c)
          \<and> fst (snd b) < ?conf c \<and> (\<forall>x \<in> set (a # pre). ?conf x < ?conf c) \<and> (\<forall>x \<in> set post. ?conf x \<le> ?conf c)"
        using d step True by auto
      then show ?thesis by blast
    qed
  next
    case False
    have step: "?f a b = b" using False by (simp add: best_step_eq)
    have "\<not> (\<forall>c \<in> set cs. ?conf c \<le> fst (snd b))" using Cons.prems False by auto
    then have "\<exists>pre c post. cs = pre @ c # post \<and> fold ?f cs b = (Some c, ?conf c, ?tier c)
        \<and> fst (snd b) < ?conf c \<and> (\<forall>x \<in> set pre. ?conf x < ?conf c) \<and> (\<forall>x \<in> set post. ?conf x \<le> ?conf c)"
      using Cons.IH [of b] by simp
    then obtain pre c post where d: "cs = pre @ c # post"
        "fold ?f cs b = (Some c, ?conf c, ?tier c)"
        "fst (snd b) < ?conf c" "\<forall>x \<in> set pre. ?conf x < ?conf c" "\<forall>x \<in> set post. ?conf x \<le> ?conf c"
      by auto
    have "a # cs = (a # pre) @ c # post \<and> fold ?f (a # cs) b = (Some c, ?conf c, ?tier c)
          \<and> fst (snd b) < ?conf c \<and> (\<forall>x \<in> set (a # pre). ?conf x < ?conf c) \<and> (\<forall>x \<in> set post. ?conf x \<le> ?conf c)"
      using d step False by auto
    then show ?thesis by blast
  qed
qed

text \<open>
  C8, as stated, says that on a non-empty candidate list the result is the match of the
  greatest-scoring candidate. The loop starts from a best confidence of 0.0 and replaces
  it only by a strictly greater one, so a candidate whose confidence is 0 is never
  chosen. Below, the only candidate has confidence 0 (the cleaned source title is empty,
  the candidate has no artist, and the durations differ by half; the similarity ratio
  is never consulted), and the result carries no candidate and the tier \<^verbatim>\<open>no_match\<close>.
\<close>

theorem find_best_match_zero_confidence_counterexample:
  "conf_of unidecode_ascii (\<lambda>a b. 0)
       \<lparr>name = ''(Intro)'', artists = [''x''], duration_ms = 100000\<rparr>
       \<lparr>title = ''Interlude'', artist = [], p_duration = Some 200000\<rparr> = 0
   \<and> find_best_match unidecode_ascii (\<lambda>a b. 0)
       \<lparr>name = ''(Intro)'', artists = [''x''], duration_ms = 100000\<rparr>
       [\<lparr>title = ''Interlude'', artist = [], p_duration = Some 200000\<rparr>]
     = \<lparr>m_spotify_track = \<lparr>name = ''(Intro)'', artists = [''x''], duration_ms = 100000\<rparr>,
        m_plex_track = None, confidence = 0, match_type = ''no_match''\<rparr>"
  by code_simp

text \<open>
  C8, amended. On the empty list the result has no candidate, confidence 0.0 and the
  tier \<^verbatim>\<open>no_candidates\<close>. On a non-empty list: if no candidate has a confidence above
  0, the result has no candidate, confidence 0.0 and the tier \<^verbatim>\<open>no_match\<close>; otherwise
  the result is the match of the first candidate whose confidence is the greatest (every
  earlier candidate scores strictly less, every later one at most as much).
\<close>

theorem find_best_match_first_maximum:
  "find_best_match ud ratio sp [] =
     \<lparr>m_spotify_track = sp, m_plex_track = None, confidence = 0, match_type = ''no_candidates''\<rparr>
   \<and> (cs \<noteq> [] \<longrightarrow>
        (if \<forall>c \<in> set cs. conf_of ud ratio sp c \<le> 0
         then find_best_match ud ratio sp cs =
                \<lparr>m_spotify_track = sp, m_plex_track = None, confidence = 0, match_type = ''no_match''\<rparr>
         else \<exists>pre c post. cs = pre @ c # post
                \<and> find_best_match ud ratio sp cs =
                    \<lparr>m_spotify_track = sp, m_plex_track = Some c,
                     confidence = conf_of ud ratio sp c, match_type = tier_of ud ratio sp c\<rparr>
                \<and> (\<forall>x \<in> set pre. conf_of ud ratio sp x < conf_of ud ratio sp c)
                \<and> (\<forall>x \<in> set post. conf_of ud ratio sp x \<le> conf_of ud ratio sp c)))"
proof (intro conjI impI)
  show "find_best_match ud ratio sp [] =
     \<lparr>m_spotify_track = sp, m_plex_track = None, confidence = 0, match_type = ''no_candidates''\<rparr>"
    by (simp add: find_best_match_def)
next
  assume ne: "cs \<noteq> []"
  let ?b = "(None :: plex_track_info option, 0 :: rat, ''no_match'')"
  show "if \<forall>c \<in> set cs. conf_of ud ratio sp c \<le> 0
         then find_best_match ud ratio sp cs =
                \<lparr>m_spotify_track = sp, m_plex_track = None, confidence = 0, match_type = ''no_match''\<rparr>
         else \<exists>pre c post. cs = pre @ c # post
                \<and> find_best_match ud ratio sp cs =
                    \<lparr>m_spotify_track = sp, m_plex_track = Some c,
                     confidence = conf_of ud ratio sp c, match_type = tier_of ud ratio sp c\<rparr>
                \<and> (\<forall>x \<in> set pre. conf_of ud ratio sp x < conf_of ud ratio sp c)
                \<and> (\<forall>x \<in> set post. conf_of ud ratio sp x \<le> conf_of ud ratio sp c)"
  proof (cases "\<forall>c \<in> set cs. conf_of ud ratio sp c \<le> 0")
    case True
    then have "fold (best_step ud ratio sp) cs ?b = ?b"
      using fold_best_step_none [of cs ud ratio sp ?b] by simp
    then show ?thesis using True ne by (simp add: find_best_match_def)
  next
    case False
    then have "\<exists>pre c post. cs = pre @ c # post
      \<and> fold (best_step ud ratio sp) cs ?b = (Some c, conf_of ud ratio sp c, tier_of ud ratio sp c)
      \<and> fst (snd ?b) < conf_of ud ratio sp c
      \<and> (\<forall>x \<in> set pre. conf_of ud ratio sp x < conf_of ud ratio sp c)
      \<and> (\<forall>x \<in> set post. conf_of ud ratio sp x \<le> conf_of ud ratio sp c)"
      using fold_best_step_some [of cs ud ratio sp ?b] by simp
    then obtain pre c post where d: "cs = pre @ c # post"
      "fold (best_step ud ratio sp) cs ?b = (Some c, conf_of ud ratio sp c, tier_of ud ratio sp c)"
      "\<forall>x \<in> set pre. conf_of ud ratio sp x < conf_of ud ratio sp c"
      "\<forall>x \<in> set post. conf_of ud ratio sp x \<le> conf_of ud ratio sp c"
      by blast
    have "find_best_match ud ratio sp cs =
                    \<lparr>m_spotify_track = sp, m_plex_track = Some c,
                     confidence = conf_of ud ratio sp c, match_type = tier_of ud ratio sp c\<rparr>"
      using d(2) ne by (simp add: find_best_match_def)
    then show ?thesis using False d(1,3,4) by (simp only: if_False) blast
  qed
qed

theorem find_best_match_first_maximum_witness:
  "[\<lparr>title = ''Other'', artist = ''Queen'', p_duration = Some 200000\<rparr>,
    \<lparr>title = ''Song'', artist = ''Queen'', p_duration = Some 200000\<rparr>] \<noteq> []
   \<and> conf_of unidecode_ascii (\<lambda>a b. if a = b then 1 else 0)
        \<lparr>name = ''Song'', artists = [''Queen''], duration_ms = 200000\<rparr>
        \<lparr>title = ''Song'', artist = ''Queen'', p_duration = Some 200000\<rparr> > 0
   \<and> m_plex_track (find_best_match unidecode_ascii (\<lambda>a b. if a = b then 1 else 0)
        \<lparr>name = ''Song'', artists = [''Queen''], duration_ms = 200000\<rparr>
        [\<lparr>title = ''Other'', artist = ''Queen'', p_duration = Some 200000\<rparr>,
         \<lparr>title = ''Song'', artist = ''Queen'', p_duration = Some 200000\<rparr>]) \<noteq> None"
proof -
  let ?sp = "\<lparr>name = ''Song'', artists = [''Queen''], duration_ms = 200000\<rparr>"
  let ?p1 = "\<lparr>title = ''Other'', artist = ''Queen'', p_duration = Some 200000\<rparr>"
  let ?p2 = "\<lparr>title = ''Song'', artist = ''Queen'', p_duration = Some 200000\<rparr>"
  let ?ratio = "\<lambda>a b :: string. if a = b then 1 else 0 :: rat"
  have pos: "conf_of unidecode_ascii ?ratio ?sp ?p2 > 0" by code_simp
  then have "\<not> (\<forall>c \<in> set [?p1, ?p2]. conf_of unidecode_ascii ?ratio ?sp c \<le> 0)"
    by auto
  then have "\<exists>pre c post. [?p1, ?p2] = pre @ c # post
      \<and> find_best_match unidecode_ascii ?ratio ?sp [?p1, ?p2] =
          \<lparr>m_spotify_track = ?sp, m_plex_track = Some c,
           confidence = conf_of unidecode_ascii ?ratio ?sp c,
           match_type = tier_of unidecode_ascii ?ratio ?sp c\<rparr>"
    using find_best_match_first_maximum [of unidecode_ascii ?ratio ?sp "[?p1, ?p2]"]
    by (simp only: if_False) blast
  then have "m_plex_track (find_best_match unidecode_ascii ?ratio ?sp [?p1, ?p2]) \<noteq> None"
    by auto
  then show ?thesis using pos by simp
qed

lemma is_space_blank: "is_space CHR '' ''"
  by (simp add: is_space_def code_def)

lemma lower_char_ascii:
  assumes "is_ascii c"
  shows "is_ascii (lower_char c) \<and> \<not> is_upper_ascii (lower_char c)"
  using assms
  by (auto simp: lower_char_def is_ascii_def is_upper_ascii_def code_def)

lemma kept_char_normal:
  assumes "is_ascii c" "\<not> is_upper_ascii c" "is_word c \<or> c = CHR ''-''"
  shows "normal_char c"
  using assms
  by (auto simp: normal_char_def is_word_def is_ascii_def is_upper_ascii_def)

lemma set_collapse_spaces:
  "set (collapse_spaces xs) \<subseteq> {c \<in> set xs. \<not> is_space c} \<union> {CHR '' ''}"
proof (induction xs rule: collapse_spaces.induct)
  case 1
  then show ?case by simp
next
  case (2 x xs)
  show ?case
  proof (cases "is_space x")
    case True
    have "set (dropWhile is_space xs) \<subseteq> set xs" by (auto dest: set_dropWhileD)
    then show ?thesis using 2(1) [OF True] True by auto
  next
    case False
    then show ?thesis using 2(2) [OF False] by auto
  qed
qed

lemma single_spaced_Cons_other: "x \<noteq> CHR '' '' \<Longrightarrow> single_spaced (x # r) = single_spaced r"
  by (cases r) auto

lemma single_spaced_Cons_blank:
  "single_spaced (CHR '' '' # r) = ((r = [] \<or> hd r \<noteq> CHR '' '') \<and> single_spaced r)"
  by (cases r) auto

lemma hd_collapse_spaces:
  "xs \<noteq> [] \<Longrightarrow> \<not> is_space (hd xs) \<Longrightarrow> collapse_spaces xs \<noteq> [] \<and> hd (collapse_spaces xs) = hd xs"
  by (cases xs) auto

lemma single_spaced_collapse_spaces: "single_spaced (collapse_spaces xs)"
proof (induction xs rule: collapse_spaces.induct)
  case 1
  then show ?case by simp
next
  case (2 x xs)
  show ?case
  proof (cases "is_space x")
    case True
    let ?ys = "dropWhile is_space xs"
    have "collapse_spaces ?ys = [] \<or> hd (collapse_spaces ?ys) \<noteq> CHR '' ''"
    proof (cases "?ys = []")
      case True
      show ?thesis by (simp only: True collapse_spaces.simps(1) simp_thms)
    next
      case False
      then have "\<not> is_space (hd ?ys)" by (rule hd_dropWhile)
      then show ?thesis using hd_collapse_spaces [OF False] is_space_blank by auto
    qed
    then show ?thesis using 2(1) [OF True] True by (simp add: single_spaced_Cons_blank)
  next
    case False
    then have "x \<noteq> CHR '' ''" using is_space_blank by auto
    then show ?thesis using 2(2) [OF False] False by (simp add: single_spaced_Cons_other)
  qed
qed

lemma single_spaced_append: "single_spaced (xs @ ys) \<Longrightarrow> single_spaced xs \<and> single_spaced ys"
proof (induction xs rule: single_spaced.induct)
  case (1 x y zs)
  then show ?case by auto
next
  case (2 x)
  then show ?case by (cases ys) auto
next
  case 3
  then show ?case by simp
qed

lemma lstrip_suffix: "s = takeWhile is_space s @ lstrip s"
  by (simp add: lstrip_def)

lemma rstrip_prefix: "s = rstrip s @ rev (takeWhile is_space (rev s))"
proof -
  have "rev s = takeWhile is_space (rev s) @ dropWhile is_space (rev s)" by simp
  then have "rev (rev s) = rev (takeWhile is_space (rev s) @ dropWhile is_space (rev s))"
    by (rule arg_cong)
  then show ?thesis by (simp only: rev_rev_ident rev_append rstrip_def)
qed

lemma single_spaced_strip: "single_spaced s \<Longrightarrow> single_spaced (strip s)"
proof -
  assume a: "single_spaced s"
  have "single_spaced (takeWhile is_space s @ lstrip s)" using a lstrip_suffix [of s] by simp
  then have b: "single_spaced (lstrip s)" using single_spaced_append by blast
  have "single_spaced (rstrip (lstrip s) @ rev (takeWhile is_space (rev (lstrip s))))"
    using b rstrip_prefix [of "lstrip s"] by simp
  then have "single_spaced (rstrip (lstrip s))" using single_spaced_append by blast
  then show ?thesis by (simp only: strip_def)
qed

lemma set_strip: "set (strip s) \<subseteq> set s"
proof -
  have "set (lstrip s) \<subseteq> set s" by (auto simp: lstrip_def dest: set_dropWhileD)
  moreover have "set (rstrip (lstrip s)) \<subseteq> set (lstrip s)"
    by (auto simp: rstrip_def dest: set_dropWhileD)
  ultimately show ?thesis by (auto simp: strip_def)
qed

lemma strip_ends:
  assumes "strip s \<noteq> []"
  shows "\<not> is_space (hd (strip s)) \<and> \<not> is_space (last (strip s))"
proof -
  let ?y = "lstrip s"
  have ne: "rstrip ?y \<noteq> []" using assms by (simp add: strip_def)
  then have yne: "?y \<noteq> []" by (auto simp: rstrip_def)
  have hy: "\<not> is_space (hd ?y)" using yne unfolding lstrip_def by (rule hd_dropWhile)
  have "hd ?y = hd (rstrip ?y @ rev (takeWhile is_space (rev ?y)))"
    using rstrip_prefix [of ?y] by simp
  then have h: "hd (rstrip ?y) = hd ?y" using ne by simp
  have dne: "dropWhile is_space (rev ?y) \<noteq> []" using ne by (simp add: rstrip_def)
  have "last (rstrip ?y) = hd (dropWhile is_space (rev ?y))"
    unfolding rstrip_def by (rule last_rev)
  moreover have "\<not> is_space (hd (dropWhile is_space (rev ?y)))" using dne by (rule hd_dropWhile)
  ultimately show ?thesis using h hy by (simp add: strip_def)
qed

text \<open>
  C9, as stated, allows only lowercase letters, digits, whitespace and hyphens in the
  result. The class \<^verbatim>\<open>\w\<close> of the pattern \<^verbatim>\<open>[^\w\s-]\<close> contains the underscore, which is
  therefore kept.
\<close>

theorem normalize_string_keeps_underscore_counterexample:
  "normalize_string unidecode_ascii (Some ''a_b'') = ''a_b''"
  by code_simp

text \<open>
  C9, amended. \<^verbatim>\<open>None\<close> and the empty string give the empty string. For every other
  text whose transliteration is ASCII (what \<^verbatim>\<open>unidecode\<close> returns), the result holds
  only lowercase letters, digits, underscores, spaces and hyphens; it has no two
  adjacent spaces, and it neither starts nor ends with a space.
\<close>

theorem normalize_string_shape:
  "normalize_string ud None = []
   \<and> normalize_string ud (Some []) = []
   \<and> ((\<forall>c \<in> set (ud t). is_ascii c) \<longrightarrow>
        (\<forall>c \<in> set (normalize_string ud (Some t)). normal_char c)
        \<and> single_spaced (normalize_string ud (Some t))
        \<and> (normalize_string ud (Some t) \<noteq> [] \<longrightarrow>
             hd (normalize_string ud (Some t)) \<noteq> CHR '' ''
             \<and> last (normalize_string ud (Some t)) \<noteq> CHR '' ''))"
proof (intro conjI impI)
  show "normalize_string ud None = []" by (simp add: normalize_string_def)
  show "normalize_string ud (Some []) = []" by (simp add: normalize_string_def)
next
  assume ascii: "\<forall>c \<in> set (ud t). is_ascii c"
  let ?kept = "filter (\<lambda>c. is_word c \<or> is_space c \<or> c = CHR ''-'') (lower (ud t))"
  have r: "normalize_string ud (Some t) = (if t = [] then [] else strip (collapse_spaces ?kept))"
    by (simp add: normalize_string_def Let_def)
  show "\<forall>c \<in> set (normalize_string ud (Some t)). normal_char c"
  proof
    fix c
    assume "c \<in> set (normalize_string ud (Some t))"
    then have "c \<in> set (strip (collapse_spaces ?kept))" using r by (auto split: if_splits)
    then have "c \<in> set (collapse_spaces ?kept)" using set_strip by blast
    then have "(c \<in> set ?kept \<and> \<not> is_space c) \<or> c = CHR '' ''"
      using set_collapse_spaces [of ?kept] by auto
    then show "normal_char c"
    proof
      assume k: "c \<in> set ?kept \<and> \<not> is_space c"
      then obtain d where d: "d \<in> set (ud t)" "c = lower_char d" by (auto simp: lower_def)
      have "is_ascii c \<and> \<not> is_upper_ascii c" using d ascii lower_char_ascii by auto
      moreover have "is_word c \<or> c = CHR ''-''" using k by auto
      ultimately show ?thesis using kept_char_normal by blast
    next
      assume "c = CHR '' ''"
      then show ?thesis by (simp add: normal_char_def)
    qed
  qed
  show "single_spaced (normalize_string ud (Some t))"
    using single_spaced_strip [OF single_spaced_collapse_spaces, of ?kept] r by simp
  assume ne: "normalize_string ud (Some t) \<noteq> []"
  then have e: "normalize_string ud (Some t) = strip (collapse_spaces ?kept)"
    using r by (auto split: if_splits)
  have "\<not> is_space (hd (strip (collapse_spaces ?kept))) \<and> \<not> is_space (last (strip (collapse_spaces ?kept)))"
    using ne e strip_ends [of "collapse_spaces ?kept"] by simp
  then show "hd (normalize_string ud (Some t)) \<noteq> CHR '' ''"
    and "last (normalize_string ud (Some t)) \<noteq> CHR '' ''"
    using e is_space_blank by auto
qed


theorem normalize_string_shape_witness:
  "normalize_string unidecode_ascii (Some ''  AC/DC -  Back_In Black!  '') = ''acdc - back_in black''
   \<and> normal_char (hd (normalize_string unidecode_ascii (Some ''  AC/DC -  Back_In Black!  '')))
   \<and> hd (normalize_string unidecode_ascii (Some ''  AC/DC -  Back_In Black!  '')) \<noteq> CHR '' ''
   \<and> last (normalize_string unidecode_ascii (Some ''  AC/DC -  Back_In Black!  '')) \<noteq> CHR '' ''"
proof -
  let ?t = "''  AC/DC -  Back_In Black!  ''"
  let ?r = "normalize_string unidecode_ascii (Some ?t)"
  have ascii: "\<forall>c \<in> set (unidecode_ascii ?t). is_ascii c" by code_simp
  have v: "?r = ''acdc - back_in black''" by code_simp
  have ne: "?r \<noteq> []" by (simp only: v) simp
  have shape: "(\<forall>c \<in> set ?r. normal_char c)
               \<and> (?r \<noteq> [] \<longrightarrow> hd ?r \<noteq> CHR '' '' \<and> last ?r \<noteq> CHR '' '')"
    using normalize_string_shape [of unidecode_ascii ?t] ascii by blast
  have "hd ?r \<in> set ?r" using ne by (rule hd_in_set)
  then have "normal_char (hd ?r)" using shape by blast
  then show ?thesis using v shape ne by blast
qed

section \<open>Properties of the scan controller\<close>

lemma stuck_on_step:
  assumes "stuck_on k s" "step s a = Some s'"
  shows "stuck_on k s' \<and> follow_ups s' = follow_ups s \<and> trigger_calls s' = trigger_calls s
         \<and> scan_in_progress s' = scan_in_progress s
         \<and> downloads_during_scan s' = downloads_during_scan s"
proof -
  have lk: "lock s = Some k" and pk: "pc_of s k = Some ComplWait"
    and others: "\<forall>j < length (threads s). j = k \<or> threads s ! j = ReqWait \<or> threads s ! j = Done"
    using assms(1) by (auto simp: stuck_on_def list_all_iff)
  have k: "k < length (threads s)" "threads s ! k = ComplWait"
    using pk by (auto simp: pc_of_def split: if_splits)
  have waiting: "\<And>j. pc_of s j = None \<or> pc_of s j = Some ComplWait \<or> pc_of s j = Some ReqWait
                        \<or> pc_of s j = Some Done"
    using others k by (auto simp: pc_of_def)
  have no_step: "thread_step j s = None" for j
    using waiting [of j] lk by (auto simp: thread_step_def acquire_def)
  have a: "a = Request"
  proof (cases a)
    case Request
    then show ?thesis .
  next
    case (Step j)
    then show ?thesis using assms(2) no_step by simp
  next
    case (TriggerAnswer j b)
    then show ?thesis using assms(2) waiting [of j] by (auto split: if_splits)
  next
    case (ClockAnswer j b)
    then show ?thesis using assms(2) waiting [of j] by (auto split: if_splits)
  next
    case (ScanningAnswer j b)
    then show ?thesis using assms(2) waiting [of j] by (auto split: if_splits)
  qed
  then have s': "s' = start_thread ReqWait s" using assms(2) by simp
  have "stuck_on k s'"
    using lk k others unfolding s' stuck_on_def
    by (auto simp: pc_of_def start_thread_def nth_append list_all_iff)
  then show ?thesis by (simp add: s' start_thread_def)
qed

lemma deadlock_is_permanent:
  assumes "stuck_on k s" "run_from s as = Some s'"
  shows "stuck_on k s' \<and> follow_ups s' = follow_ups s \<and> trigger_calls s' = trigger_calls s
         \<and> scan_in_progress s' = scan_in_progress s
         \<and> downloads_during_scan s' = downloads_during_scan s"
  using assms
proof (induction as arbitrary: s)
  case Nil
  then show ?case by simp
next
  case (Cons a as)
  from Cons.prems(2) obtain s1 where s1: "step s a = Some s1" "run_from s1 as = Some s'"
    by (auto split: option.splits)
  show ?case
    using stuck_on_step [OF Cons.prems(1) s1(1)] Cons.IH [OF _ s1(2)] by simp
qed

text \<open>
  C3 at a failing input. A scan is requested (thread 0), the debounce timer (thread 1)
  fires and the scan is started with success, so that the status polling (thread 2)
  begins. A second request (thread 3) arrives while the scan is in progress and sets the
  flag. The poll thread then wakes up after the scan has taken more than 1800 seconds:
  under the lock it takes the timeout branch
  and calls \<^verbatim>\<open>_scan_completed\<close>, whose \<^verbatim>\<open>with self._lock\<close> waits for the lock that the
  thread itself holds. The run ends with the lock held by thread 2, which cannot move;
  the scan is still marked in progress, the flag is set and no follow-up request has
  been issued. (By \<open>deadlock_is_permanent\<close> this stays so whatever happens next: every
  later caller of \<^verbatim>\<open>request_scan\<close> waits for the lock for ever.)
\<close>

theorem scan_timeout_deadlock_no_follow_up:
  "run [Request, Step 0, Step 0,
        Step 1, Step 1, Step 1, TriggerAnswer 1 True,
        Request, Step 3, Step 3,
        Step 2, Step 2, ClockAnswer 2 True]
     = Some \<lparr>timer = None, scan_in_progress = True, downloads_during_scan = True,
             scan_start_time_set = True, lock = Some 2,
             threads = [Done, Done, ComplWait, Done], cancelled = [],
             trigger_calls = 1, follow_ups = 0\<rparr>
   \<and> stuck_on 2 \<lparr>timer = None, scan_in_progress = True, downloads_during_scan = True,
             scan_start_time_set = True, lock = Some 2,
             threads = [Done, Done, ComplWait, Done], cancelled = [],
             trigger_calls = 1, follow_ups = 0\<rparr>
   \<and> step \<lparr>timer = None, scan_in_progress = True, downloads_during_scan = True,
             scan_start_time_set = True, lock = Some 2,
             threads = [Done, Done, ComplWait, Done], cancelled = [],
             trigger_calls = 1, follow_ups = 0\<rparr> (Step 2) = None"
  by code_simp

text \<open>
  A request is also lost when the remote call fails: it arrives between the locked part
  of \<^verbatim>\<open>_execute_scan\<close> and \<^verbatim>\<open>_reset_scan_state\<close>, sees a scan in progress and only sets
  the flag; afterwards no timer is armed and no follow-up is issued.
\<close>

lemma request_during_failing_trigger_is_lost:
  "run [Request, Step 0, Step 0,
        Step 1, Step 1, Step 1,
        Request, Step 2, Step 2,
        TriggerAnswer 1 False, Step 1, Step 1]
     = Some \<lparr>timer = None, scan_in_progress = False, downloads_during_scan = True,
             scan_start_time_set = False, lock = None,
             threads = [Done, Done, Done], cancelled = [],
             trigger_calls = 1, follow_ups = 0\<rparr>"
  by code_simp

text \<open>
  C4 at a failing input. The first request (thread 0) arms timer 1. The second request
  (thread 2)
  arrives and takes the lock while timer 1 is still asleep, that is, before the delay has
  elapsed. Timer 1 then wakes up; its \<^verbatim>\<open>finished\<close> event is not set, so it goes on to call
  \<^verbatim>\<open>_execute_scan\<close> and waits for the lock. Thread 2 now cancels timer 1, which no longer
  looks at the event, and arms timer 3. Timer 1 starts a scan (first remote call), the
  polling (thread 4) finds the scan finished, and when timer 3 wakes up no scan is in
  progress: it starts a second scan. Two requests, two remote calls.
\<close>

theorem debounce_race_two_triggers:
  "run [Request, Step 0, Step 0, Request, Step 2]
     = Some \<lparr>timer = Some 1, scan_in_progress = False, downloads_during_scan = False,
             scan_start_time_set = False, lock = Some 2,
             threads = [Done, TimerSleep, ReqLocked], cancelled = [],
             trigger_calls = 0, follow_ups = 0\<rparr>
   \<and> run [Request, Step 0, Step 0, Request, Step 2,
          Step 1,
          Step 2,
          Step 1, Step 1, TriggerAnswer 1 True,
          Step 4, Step 4, ClockAnswer 4 False, ScanningAnswer 4 (Some False),
          Step 4, Step 4, Step 4, Step 4,
          Step 3, Step 3, Step 3, TriggerAnswer 3 True]
     = Some \<lparr>timer = None, scan_in_progress = True, downloads_during_scan = False,
             scan_start_time_set = True, lock = None,
             threads = [Done, Done, Done, Done, Done, PollSleep], cancelled = [1],
             trigger_calls = 2, follow_ups = 0\<rparr>"
  by code_simp

text \<open>
  Without the race the debounce works: when timer 1 wakes up only after the second
  request has cancelled it, it returns without calling \<^verbatim>\<open>_execute_scan\<close>, and the two
  requests lead to one remote call.
\<close>

lemma debounce_without_race_one_trigger:
  "run [Request, Step 0, Step 0, Request, Step 2,
        Step 2,
        Step 1,
        Step 3, Step 3, Step 3, TriggerAnswer 3 True]
     = Some \<lparr>timer = None, scan_in_progress = True, downloads_during_scan = False,
             scan_start_time_set = True, lock = None,
             threads = [Done, Done, Done, Done, PollSleep], cancelled = [1],
             trigger_calls = 1, follow_ups = 0\<rparr>"
  by code_simp

text \<open>
  On the way that does not time out, a request that arrived during the scan is followed
  up once: the poll finds the scan finished, \<^verbatim>\<open>_scan_completed\<close> issues one follow-up
  request, and that request arms one timer. The flag is still set then; the locked part
  of \<^verbatim>\<open>_execute_scan\<close> clears it when the follow-up scan starts.
\<close>

lemma follow_up_after_normal_completion:
  "run [Request, Step 0, Step 0,
        Step 1, Step 1, Step 1, TriggerAnswer 1 True,
        Request, Step 3, Step 3,
        Step 2, Step 2, ClockAnswer 2 False, ScanningAnswer 2 (Some False),
        Step 2, Step 2, Step 2, Step 2, Step 2, Step 2, Step 2]
     = Some \<lparr>timer = Some 4, scan_in_progress = False, downloads_during_scan = True,
             scan_start_time_set = True, lock = None,
             threads = [Done, Done, Done, Done, TimerSleep], cancelled = [],
             trigger_calls = 1, follow_ups = 1\<rparr>"
  by code_simp


end
